theory Spec2Isabelle
  imports Main
begin

section \<open>The channel and its records\<close>

text \<open>
  The cog \<^verbatim>\<open>MessageManagement\<close> of \<^verbatim>\<open>message_management.py\<close> drives a chat channel through
  the client library: it reads the channel's history, sends, fetches, edits and deletes
  messages. A message is a record of the fields the cog reads and writes; an attachment is
  its file name and bytes, an embed its title, description and colour (each optional in
  the library). A text is the list of its bytes in UTF-8.
\<close>

record attachment =
  att_filename :: string
  att_bytes :: string

record embed =
  emb_title :: "string option"
  emb_description :: "string option"
  emb_colour :: "int option"

record user =
  user_id :: nat
  user_name :: string

record message =
  msg_id :: nat
  author :: nat
  content :: string
  attachments :: "attachment list"
  embeds :: "embed list"
  suppress_embeds :: bool

datatype error = NotFound | Forbidden | AttributeError | ValueError | HTTPError | KeyError
  | FileNotFoundError

text \<open>
  Every call the cog makes on the channel, the invoking interaction or a user is logged, in
  the order the calls are awaited.
\<close>

datatype event =
    Responded string
  | Sent message
  | Fetched nat
  | Edited nat message
  | Deleted nat
  | Direct nat string

text \<open>
  The state the commands run on: the channel's messages, oldest first, and the log of calls
  made so far.
\<close>

record world =
  messages :: "message list"
  events :: "event list"

text \<open>
  What a command reads from its surroundings and does not compute itself: the bot's own
  user (\<^verbatim>\<open>self.bot.user\<close>), the link the library derives from a message id
  (\<^verbatim>\<open>jump_url\<close>), the two emoji filters imported from \<^verbatim>\<open>emoji_management\<close>, the
  first group of a match of the imported pattern \<^verbatim>\<open>reTitleGroup\<close> at the start of a text
  (\<^verbatim>\<open>None\<close> when it does not match), the built-in \<^verbatim>\<open>int\<close> on a text (\<^verbatim>\<open>None\<close>
  when it raises ValueError), the bot's user cache (\<^verbatim>\<open>self.bot.get_user\<close>), the id and the
  name of the channel the command is invoked in, the imported constant \<^verbatim>\<open>FILEPATH\<close>, and
  the day and month of \<^verbatim>\<open>date.today()\<close>.
\<close>

record env =
  bot_user :: nat
  jump_url :: "nat \<Rightarrow> string"
  emojify :: "string \<Rightarrow> string"
  deemojify :: "string \<Rightarrow> string"
  reTitleGroup :: "string \<Rightarrow> string option"
  py_int :: "string \<Rightarrow> int option"
  get_user :: "int \<Rightarrow> user option"
  channel_id :: int
  channel_name :: string
  FILEPATH :: string
  today_day :: nat
  today_month :: nat

subsection \<open>The client library's calls\<close>

text \<open>
  Modelled from the spec: the Ordered Log Adapter (the chat client library, which is not part
  of the repository). Section 6 of the specification gives its surface: \<^verbatim>\<open>iterate\<close> over the
  records oldest first or newest first, \<^verbatim>\<open>append\<close>, \<^verbatim>\<open>edit\<close>, \<^verbatim>\<open>delete\<close> and
  \<^verbatim>\<open>fetch_record\<close>, which fails with NotFound or Forbidden. The iteration yields the
  records the channel holds when it is started.
\<close>

definition history :: "bool \<Rightarrow> world \<Rightarrow> message list" where
  "history oldest_first w = (if oldest_first then messages w else rev (messages w))"

definition fresh_id :: "message list \<Rightarrow> nat" where
  "fresh_id ch = Suc (foldr max (map msg_id ch) 0)"

definition respond :: "string \<Rightarrow> world \<Rightarrow> world" where
  "respond txt w = w\<lparr>events := events w @ [Responded txt]\<rparr>"

definition send :: "env \<Rightarrow> string \<Rightarrow> attachment list \<Rightarrow> embed list \<Rightarrow> bool \<Rightarrow> world \<Rightarrow> world" where
  "send E txt files embs suppress w =
     (let m = \<lparr>msg_id = fresh_id (messages w), author = bot_user E, content = txt,
                attachments = files, embeds = embs, suppress_embeds = suppress\<rparr>
      in w\<lparr>messages := messages w @ [m], events := events w @ [Sent m]\<rparr>)"

definition fetch_message :: "nat \<Rightarrow> world \<Rightarrow> error + (message \<times> world)" where
  "fetch_message i w =
     (case find (\<lambda>m. msg_id m = i) (messages w) of
        None \<Rightarrow> Inl NotFound
      | Some m \<Rightarrow> Inr (m, w\<lparr>events := events w @ [Fetched i]\<rparr>))"

definition edit_message :: "env \<Rightarrow> nat \<Rightarrow> (message \<Rightarrow> message) \<Rightarrow> world \<Rightarrow> error + world" where
  "edit_message E i f w =
     (case find (\<lambda>m. msg_id m = i) (messages w) of
        None \<Rightarrow> Inl NotFound
      | Some m \<Rightarrow>
          if author m \<noteq> bot_user E then Inl Forbidden
          else Inr (w\<lparr>messages := map (\<lambda>x. if msg_id x = i then f x else x) (messages w),
                      events := events w @ [Edited i (f m)]\<rparr>))"

definition delete_message :: "nat \<Rightarrow> world \<Rightarrow> error + world" where
  "delete_message i w =
     (case find (\<lambda>m. msg_id m = i) (messages w) of
        None \<Rightarrow> Inl NotFound
      | Some m \<Rightarrow> Inr (w\<lparr>messages := filter (\<lambda>x. msg_id x \<noteq> i) (messages w),
                          events := events w @ [Deleted i]\<rparr>))"

text \<open>A \<^verbatim>\<open>for\<close> loop whose body may raise: the first error ends the loop.\<close>

fun for_each :: "'a list \<Rightarrow> ('a \<Rightarrow> 's \<Rightarrow> error + 's) \<Rightarrow> 's \<Rightarrow> error + 's" where
  "for_each [] body s = Inr s"
| "for_each (x # xs) body s =
     (case body x s of Inl e \<Rightarrow> Inl e | Inr s' \<Rightarrow> for_each xs body s')"

section \<open>Insert empty message\<close>

text \<open>
  \<^verbatim>\<open>insert_message\<close>, lines 135 to 168. The first loop walks the history newest first and
  collects the ids of the bot's messages, stopping after the target.
\<close>

fun collect_bot_msgs :: "env \<Rightarrow> message \<Rightarrow> message list \<Rightarrow> nat list" where
  "collect_bot_msgs E message [] = []"
| "collect_bot_msgs E message (msg # rest) =
     (if author msg = bot_user E then
        (if msg_id message = msg_id msg then [msg_id msg]
         else msg_id msg # collect_bot_msgs E message rest)
      else collect_bot_msgs E message rest)"

text \<open>
  The body of the second loop, for index \<^verbatim>\<open>i\<close>: both messages are fetched, then the
  message at \<^verbatim>\<open>i\<close> takes the content, the files and the embeds of the message at
  \<^verbatim>\<open>i + 1\<close>, its own attachments being dropped.
\<close>

definition shift_step :: "env \<Rightarrow> nat list \<Rightarrow> nat \<Rightarrow> world \<Rightarrow> error + world" where
  "shift_step E chnl_bot_msgs i w =
     (case fetch_message (chnl_bot_msgs ! i) w of
        Inl e \<Rightarrow> Inl e
      | Inr (msg_crt, w1) \<Rightarrow>
          (case fetch_message (chnl_bot_msgs ! (i + 1)) w1 of
             Inl e \<Rightarrow> Inl e
           | Inr (msg_nxt, w2) \<Rightarrow>
               edit_message E (msg_id msg_crt)
                 (\<lambda>m. m\<lparr>content := content msg_nxt, attachments := attachments msg_nxt,
                         embeds := embeds msg_nxt, suppress_embeds := (embeds msg_nxt = [])\<rparr>)
                 w2))"

definition insert_message :: "env \<Rightarrow> message \<Rightarrow> world \<Rightarrow> error + world" where
  "insert_message E message w =
     (let w1 = respond (''Inserted empty message at '' @ jump_url E (msg_id message)) w;
          w2 = send E ''*** ***'' [] [] False w1;
          chnl_bot_msgs = collect_bot_msgs E message (history False w2)
      in case for_each [0 ..< length (butlast chnl_bot_msgs)] (shift_step E chnl_bot_msgs) w2 of
           Inl e \<Rightarrow> Inl e
         | Inr w3 \<Rightarrow>
             edit_message E (msg_id message)
               (\<lambda>m. m\<lparr>content := ''**[PH]**'', suppress_embeds := True, embeds := []\<rparr>) w3)"

section \<open>Dump messages\<close>

text \<open>
  \<^verbatim>\<open>dump_messages\<close>, lines 98 to 107. The result is the exception the command ends with, if
  any, and the state it leaves. In the branch for an unknown user the argument of
  \<^verbatim>\<open>ctx.respond\<close> reads \<^verbatim>\<open>user.name\<close> of \<^verbatim>\<open>None\<close>, which raises before the call is made.
\<close>

definition direct :: "user \<Rightarrow> string \<Rightarrow> world \<Rightarrow> world" where
  "direct u txt w = w\<lparr>events := events w @ [Direct (user_id u) txt]\<rparr>"

definition dump_messages :: "env \<Rightarrow> string \<Rightarrow> world \<Rightarrow> error option \<times> world" where
  "dump_messages E ident w =
     (case py_int E ident of
        None \<Rightarrow> (Some ValueError, w)
      | Some n \<Rightarrow>
          (case get_user E n of
             None \<Rightarrow> (Some AttributeError, w)
           | Some u \<Rightarrow>
               (None, foldl (\<lambda>w' message. direct u (''```'' @ deemojify E (content message) @ ''```'') w')
                        (respond (''Sending the messages to '' @ user_name u) w)
                        (history True w))))"

section \<open>Texts\<close>

text \<open>
  A text of the program is a Python \<^verbatim>\<open>str\<close>, a sequence of code points. Here a text is
  the bytes of its UTF-8 encoding. \<^verbatim>\<open>py_chars\<close> cuts the bytes into the characters of
  the text, each character being the bytes that encode it (one to four, as the first
  byte tells), and \<^verbatim>\<open>code_point\<close> is the number of a character. So the no-break space
  U+00A0 is the character \<^verbatim>\<open>[CHR 0xC2, CHR 0xA0]\<close> and the Arabic-Indic digit three
  U+0663 is \<^verbatim>\<open>[CHR 0xD9, CHR 0xA3]\<close>.
\<close>

definition utf8_width :: "char \<Rightarrow> nat" where
  "utf8_width c = (if (of_char c :: nat) < 0xC0 then 1 else if (of_char c :: nat) < 0xE0 then 2
                   else if (of_char c :: nat) < 0xF0 then 3 else 4)"

fun py_chars :: "string \<Rightarrow> string list" where
  "py_chars [] = []"
| "py_chars (c # cs) = (c # take (utf8_width c - 1) cs) # py_chars (drop (utf8_width c - 1) cs)"

fun utf8_value :: "int list \<Rightarrow> int" where
  "utf8_value [a] = a"
| "utf8_value [a, b] = (a - 0xC0) * 0x40 + (b - 0x80)"
| "utf8_value [a, b, c] = (a - 0xE0) * 0x1000 + (b - 0x80) * 0x40 + (c - 0x80)"
| "utf8_value [a, b, c, d] =
     (a - 0xF0) * 0x40000 + (b - 0x80) * 0x1000 + (c - 0x80) * 0x40 + (d - 0x80)"
| "utf8_value _ = - 1"

definition code_point :: "string \<Rightarrow> int" where
  "code_point u = utf8_value (map of_char u)"

text \<open>
  The white space of \<^verbatim>\<open>str.isspace\<close>, \<^verbatim>\<open>str.strip\<close> and of \<^verbatim>\<open>\s\<close> in a pattern on \<^verbatim>\<open>str\<close>:
  the characters Unicode calls white space, which are the six of ASCII, the four
  separators 28 to 31, the next line U+0085, the no-break space U+00A0 and the spaces of
  the general punctuation block and beyond.
\<close>

definition py_isspace :: "string \<Rightarrow> bool" where
  "py_isspace u = (code_point u \<in> set [0x09, 0x0A, 0x0B, 0x0C, 0x0D, 0x1C, 0x1D, 0x1E, 0x1F, 0x20,
       0x85, 0xA0, 0x1680, 0x2000, 0x2001, 0x2002, 0x2003, 0x2004, 0x2005, 0x2006, 0x2007, 0x2008,
       0x2009, 0x200A, 0x2028, 0x2029, 0x202F, 0x205F, 0x3000])"

text \<open>
  The decimal digits of \<^verbatim>\<open>\d\<close> in a pattern on \<^verbatim>\<open>str\<close>: the characters of the Unicode
  category Nd. They come in runs of ten, zero to nine; the list gives the zero of every
  run (Unicode 14.0, the character database of Python 3.11).
\<close>

definition decimal_zeros :: "int list" where
  "decimal_zeros = [0x30, 0x660, 0x6F0, 0x7C0, 0x966, 0x9E6, 0xA66, 0xAE6, 0xB66, 0xBE6, 0xC66,
     0xCE6, 0xD66, 0xDE6, 0xE50, 0xED0, 0xF20, 0x1040, 0x1090, 0x17E0, 0x1810, 0x1946, 0x19D0,
     0x1A80, 0x1A90, 0x1B50, 0x1BB0, 0x1C40, 0x1C50, 0xA620, 0xA8D0, 0xA900, 0xA9D0, 0xA9F0,
     0xAA50, 0xABF0, 0xFF10, 0x104A0, 0x10D30, 0x11066, 0x110F0, 0x11136, 0x111D0, 0x112F0,
     0x11450, 0x114D0, 0x11650, 0x116C0, 0x11730, 0x118E0, 0x11950, 0x11C50, 0x11D50, 0x11DA0,
     0x16A60, 0x16AC0, 0x16B50, 0x1D7CE, 0x1D7D8, 0x1D7E2, 0x1D7EC, 0x1D7F6, 0x1E140, 0x1E2F0,
     0x1E950, 0x1FBF0]"

definition py_isdecimal :: "string \<Rightarrow> bool" where
  "py_isdecimal u = (\<exists>z\<in>set decimal_zeros. z \<le> code_point u \<and> code_point u \<le> z + 9)"

text \<open>\<^verbatim>\<open>str.strip\<close> without argument removes the white space at both ends.\<close>

definition py_strip :: "string \<Rightarrow> string" where
  "py_strip s = concat (rev (dropWhile py_isspace (rev (dropWhile py_isspace (py_chars s)))))"

section \<open>Summary and republish\<close>

text \<open>
  The title of the table of contents is the Russian word the source writes in Cyrillic,
  here as its UTF-8 bytes.
\<close>

definition toc_title :: string where
  "toc_title = [CHR 0xD0, CHR 0xA1, CHR 0xD0, CHR 0xBE, CHR 0xD0, CHR 0xB4, CHR 0xD0, CHR 0xB5,
     CHR 0xD1, CHR 0x80, CHR 0xD0, CHR 0xB6, CHR 0xD0, CHR 0xB0, CHR 0xD0, CHR 0xBD,
     CHR 0xD0, CHR 0xB8, CHR 0xD0, CHR 0xB5]"

text \<open>\<^verbatim>\<open>summary\<close>, lines 225 to 242.\<close>

definition summary_description :: "env \<Rightarrow> message list \<Rightarrow> string" where
  "summary_description E msgs =
     concat (map (\<lambda>msg. case reTitleGroup E (content msg) of
                     None \<Rightarrow> []
                   | Some g \<Rightarrow> ''['' @ py_strip (filter (\<lambda>c. c \<noteq> CHR ''#'') g) @ '']('' @
                               jump_url E (msg_id msg) @ '')'' @ [CHR 0x0A]) msgs)"

definition summary :: "env \<Rightarrow> world \<Rightarrow> world" where
  "summary E w =
     (let w1 = respond ''Starting the process...'' w;
          description = summary_description E (history True w1)
      in send E [] []
           [\<lparr>emb_title = Some toc_title, emb_description = Some description,
             emb_colour = Some 0x5865F2\<rparr>] False w1)"

text \<open>\<^verbatim>\<open>republish\<close>, lines 115 to 133: the body of the loop, then the command.\<close>

definition republish_step :: "env \<Rightarrow> message \<Rightarrow> world \<Rightarrow> error + world" where
  "republish_step E message w =
     (let w' =
        (if content message \<noteq> [] then
           (if author message = bot_user E then
              send E (content message) (attachments message) (embeds message)
                (embeds message = []) w
            else
              send E (emojify E (content message)) (attachments message) (embeds message)
                (embeds message = []) w)
         else
           (if embeds message \<noteq> [] \<and> emb_title (hd (embeds message)) = Some toc_title then
              summary E w
            else send E ''*** ***'' [] [] False w))
      in delete_message (msg_id message) w')"

definition republish :: "env \<Rightarrow> world \<Rightarrow> error + world" where
  "republish E w =
     (let w1 = respond ''Starting the process'' w
      in for_each (history True w1) (republish_step E) w1)"

section \<open>Save and publish\<close>

text \<open>
  The files the two commands write and read: the attachment files, by path, and the JSON
  documents, by path, each a list of objects. \<^verbatim>\<open>json.dump\<close> followed by \<^verbatim>\<open>json.load\<close>
  gives the list back, so a document is kept as the list itself. An object is the header
  (channel name and id) or a message (content, image paths, embed descriptions, where a
  missing description is \<^verbatim>\<open>null\<close>).
\<close>

datatype bundle_entry =
    Header string int
  | Entry string "string list" "string option list"

record filesystem =
  fs_files :: "string \<rightharpoonup> string"
  fs_json :: "string \<rightharpoonup> bundle_entry list"

text \<open>\<^verbatim>\<open>str\<close> of a natural number: its decimal digits.\<close>

definition digit_char :: "nat \<Rightarrow> char" where
  "digit_char d = ''0123456789'' ! d"

function str_nat :: "nat \<Rightarrow> string" where
  "str_nat n = (if n < 10 then [digit_char n] else str_nat (n div 10) @ [digit_char (n mod 10)])"
  by pat_completeness auto
termination
  by (relation "measure (\<lambda>n. n)") auto

declare str_nat.simps [simp del]

text \<open>
  \<^verbatim>\<open>save_messages\<close>, lines 244 to 303. The name of the export when none is given (lines
  256 to 272; matching \<^verbatim>\<open>str(ctx.channel_id)\<close> against a decimal literal is comparing the
  id with the number).
\<close>

definition default_filename :: "env \<Rightarrow> string" where
  "default_filename E =
     (if channel_id E = 862009501036838952 then ''resto''
      else if channel_id E = 780149018104954921 then ''feral''
      else if channel_id E = 780458782181294131 then ''guardian''
      else if channel_id E = 779796524275204107 then ''boomkin''
      else channel_name E)
     @ ''-'' @ str_nat (today_day E) @ ''.'' @ str_nat (today_month E)"

text \<open>
  The body of the loop over the attachments of one message (lines 289 to 294):
  \<^verbatim>\<open>img_id\<close> is set to 0 at the start of every pass, the file is written, its path is
  appended to \<^verbatim>\<open>images\<close>, and \<^verbatim>\<open>img_id\<close> is incremented.
\<close>

definition save_attachment ::
  "env \<Rightarrow> string \<Rightarrow> attachment \<Rightarrow> filesystem \<times> string list \<Rightarrow> filesystem \<times> string list" where
  "save_attachment E filename attachment st =
     (case st of (fs, images) \<Rightarrow>
        (let img_id = (0::nat);
             fs' = fs\<lparr>fs_files := (fs_files fs)
                      (FILEPATH E @ ''/'' @ filename @ ''/'' @ str_nat img_id @ ''.png''
                         \<mapsto> att_bytes attachment)\<rparr>;
             images' = images @ [filename @ ''/'' @ str_nat img_id @ ''.png''];
             img_id' = img_id + 1
         in (fs', images')))"

text \<open>The body of the loop over the messages (lines 276 to 299).\<close>

definition save_message ::
  "env \<Rightarrow> string \<Rightarrow> message \<Rightarrow> filesystem \<times> bundle_entry list \<Rightarrow> filesystem \<times> bundle_entry list" where
  "save_message E filename msg st =
     (case st of (fs, msgs) \<Rightarrow>
        (let content' = deemojify E (content msg);
             embeds' = map emb_description (embeds msg)
         in case foldl (\<lambda>st' a. save_attachment E filename a st') (fs, []) (attachments msg) of
              (fs', images) \<Rightarrow> (fs', msgs @ [Entry content' images embeds'])))"

definition save_messages ::
  "env \<Rightarrow> string option \<Rightarrow> world \<times> filesystem \<Rightarrow> world \<times> filesystem" where
  "save_messages E filename_opt st =
     (case st of (w, fs) \<Rightarrow>
        (let w1 = respond ''Saving'' w;
             msgs = [Header (channel_name E) (channel_id E)];
             filename = (case filename_opt of None \<Rightarrow> default_filename E | Some f \<Rightarrow> f)
         in case foldl (\<lambda>st' msg. save_message E filename msg st') (fs, msgs) (history True w1) of
              (fs', msgs') \<Rightarrow>
                (respond ''Done'' w1,
                 fs'\<lparr>fs_json := (fs_json fs')(FILEPATH E @ ''/'' @ filename @ ''.json'' \<mapsto> msgs')\<rparr>)))"

text \<open>
  \<^verbatim>\<open>publish\<close>, lines 305 to 330. \<^verbatim>\<open>discord.File(path)\<close> opens the file, so a missing image
  raises; the attachment sent is named after the last part of the path.
\<close>

definition basename :: "string \<Rightarrow> string" where
  "basename p = rev (takeWhile (\<lambda>c. c \<noteq> CHR ''/'') (rev p))"

fun read_files :: "env \<Rightarrow> filesystem \<Rightarrow> string list \<Rightarrow> attachment list option" where
  "read_files E fs [] = Some []"
| "read_files E fs (img # images) =
     (case fs_files fs (FILEPATH E @ ''/'' @ img) of
        None \<Rightarrow> None
      | Some bytes \<Rightarrow>
          (case read_files E fs images of
             None \<Rightarrow> None
           | Some files \<Rightarrow> Some (\<lparr>att_filename = basename img, att_bytes = bytes\<rparr> # files)))"

definition publish_entry :: "env \<Rightarrow> filesystem \<Rightarrow> bundle_entry \<Rightarrow> world \<Rightarrow> error + world" where
  "publish_entry E fs msg w =
     (case msg of
        Header name ident \<Rightarrow> Inl KeyError
      | Entry content' images embeds' \<Rightarrow>
          (case read_files E fs images of
             None \<Rightarrow> Inl FileNotFoundError
           | Some files \<Rightarrow>
               Inr (send E (emojify E content') files
                      (map (\<lambda>d. \<lparr>emb_title = None, emb_description = d, emb_colour = None\<rparr>) embeds')
                      False w)))"

definition publish :: "env \<Rightarrow> string \<Rightarrow> world \<times> filesystem \<Rightarrow> error + world" where
  "publish E filename st =
     (case st of (w, fs) \<Rightarrow>
        (case fs_json fs (FILEPATH E @ ''/'' @ filename @ ''.json'') of
           None \<Rightarrow> Inr (respond (''Bad filename: '' @ filename) w)
         | Some msgs \<Rightarrow> for_each (tl msgs) (publish_entry E fs) (respond ''Starting'' w)))"

section \<open>Link enrichment\<close>

subsection \<open>The two patterns and the matching of the \<^verbatim>\<open>re\<close> module\<close>

text \<open>
  \<^verbatim>\<open>fix_item_links\<close> (lines 35 to 96) works with two regular expressions. Both are a
  sequence of literals and of quantified character classes, so a pattern is a list of
  atoms: a literal, an optional literal (\<^verbatim>\<open>(?:www\.)?\<close>), a greedy star, a lazy star
  (\<^verbatim>\<open>.*?\<close>), a greedy plus, and a greedy plus that is group 1 (\<^verbatim>\<open>(\d+)\<close>). The classes
  are \<^verbatim>\<open>.\<close> (any character but the line feed), \<^verbatim>\<open>[^\)]\<close>, \<^verbatim>\<open>[^\s\)]\<close> and \<^verbatim>\<open>\d\<close>. The
  patterns are \<^verbatim>\<open>str\<close> patterns compiled without flags, so they work on the characters of
  a text (\<^verbatim>\<open>py_chars\<close>), and \<^verbatim>\<open>\s\<close> and \<^verbatim>\<open>\d\<close> are the white space and the decimal digits
  of Unicode.
\<close>

datatype cls = Dot | NotParen | NotSpaceParen | Digit

fun in_cls :: "cls \<Rightarrow> string \<Rightarrow> bool" where
  "in_cls Dot c = (c \<noteq> [CHR 0x0A])"
| "in_cls NotParen c = (c \<noteq> '')'')"
| "in_cls NotSpaceParen c = (\<not> py_isspace c \<and> c \<noteq> '')'')"
| "in_cls Digit c = py_isdecimal c"

datatype atom = Lit "string list" | Opt "string list" | Star cls | Lazy cls | Plus cls | Capture cls

text \<open>
  Matching at the start of a text, by backtracking as \<^verbatim>\<open>re\<close> does it: a greedy
  quantifier tries the longest run first, a lazy one the shortest, and the first way that
  lets the rest of the pattern match is the match. The result is the number of
  characters matched and group 1, if the pattern has one.
\<close>

fun first_some :: "('a \<Rightarrow> 'b option) \<Rightarrow> 'a list \<Rightarrow> 'b option" where
  "first_some f [] = None"
| "first_some f (x # xs) = (case f x of Some y \<Rightarrow> Some y | None \<Rightarrow> first_some f xs)"

definition advance ::
  "nat \<Rightarrow> string list option \<Rightarrow> (nat \<times> string list option) option
     \<Rightarrow> (nat \<times> string list option) option" where
  "advance k g r =
     (case r of
        None \<Rightarrow> None
      | Some (n, g') \<Rightarrow> Some (k + n, (case g of Some x \<Rightarrow> Some x | None \<Rightarrow> g')))"

definition run :: "cls \<Rightarrow> string list \<Rightarrow> nat" where
  "run c s = length (takeWhile (in_cls c) s)"

primrec match_here :: "atom list \<Rightarrow> string list \<Rightarrow> (nat \<times> string list option) option" where
  "match_here [] s = Some (0, None)"
| "match_here (a # as) s =
     (case a of
        Lit l \<Rightarrow>
          if take (length l) s = l then advance (length l) None (match_here as (drop (length l) s))
          else None
      | Opt l \<Rightarrow>
          (case (if take (length l) s = l
                 then advance (length l) None (match_here as (drop (length l) s)) else None) of
             Some r \<Rightarrow> Some r
           | None \<Rightarrow> match_here as s)
      | Star c \<Rightarrow>
          first_some (\<lambda>k. advance k None (match_here as (drop k s))) (rev [0 ..< Suc (run c s)])
      | Lazy c \<Rightarrow>
          first_some (\<lambda>k. advance k None (match_here as (drop k s))) [0 ..< Suc (run c s)]
      | Plus c \<Rightarrow>
          first_some (\<lambda>k. advance k None (match_here as (drop k s))) (rev [1 ..< Suc (run c s)])
      | Capture c \<Rightarrow>
          first_some (\<lambda>k. advance k (Some (take k s)) (match_here as (drop k s)))
            (rev [1 ..< Suc (run c s)]))"

text \<open>
  Scanning a text from left to right, as \<^verbatim>\<open>finditer\<close>, \<^verbatim>\<open>findall\<close> and \<^verbatim>\<open>sub\<close> do: where
  the pattern matches, the match is taken and the scan goes on behind it; elsewhere one
  character is passed over. (Neither pattern matches the empty text, so the treatment of
  empty matches is not modelled.)
\<close>

datatype token = Skip string | Hit "string list" "string list option"

function tokens :: "atom list \<Rightarrow> string list \<Rightarrow> token list" where
  "tokens p [] = []"
| "tokens p (c # cs) =
     (case match_here p (c # cs) of
        None \<Rightarrow> Skip c # tokens p cs
      | Some (n, g) \<Rightarrow>
          if 0 < n then Hit (take n (c # cs)) g # tokens p (drop n (c # cs))
          else Skip c # tokens p cs)"
  by pat_completeness auto
termination
  by (relation "measure (\<lambda>(p, s). length s)") auto

text \<open>\<^verbatim>\<open>findall\<close> for a pattern with one group: group 1 of every match.\<close>

definition findall :: "atom list \<Rightarrow> string list \<Rightarrow> string list list" where
  "findall p s =
     concat (map (\<lambda>t. case t of Skip c \<Rightarrow> [] | Hit m g \<Rightarrow> (case g of None \<Rightarrow> [] | Some x \<Rightarrow> [x]))
               (tokens p s))"

text \<open>\<^verbatim>\<open>sub\<close> with a function as replacement: the function gets the match and group 1.\<close>

definition re_sub ::
  "atom list \<Rightarrow> (string list \<Rightarrow> string list option \<Rightarrow> string list) \<Rightarrow> string list \<Rightarrow> string list" where
  "re_sub p repl s =
     concat (map (\<lambda>t. case t of Skip c \<Rightarrow> [c] | Hit m g \<Rightarrow> repl m g) (tokens p s))"

text \<open>\<^verbatim>\<open>finditer\<close>: start and end of every match.\<close>

fun spans :: "nat \<Rightarrow> token list \<Rightarrow> (nat \<times> nat) list" where
  "spans pos [] = []"
| "spans pos (Skip c # ts) = spans (Suc pos) ts"
| "spans pos (Hit m g # ts) = (pos, pos + length m) # spans (pos + length m) ts"

definition finditer :: "atom list \<Rightarrow> string list \<Rightarrow> (nat \<times> nat) list" where
  "finditer p s = spans 0 (tokens p s)"

text \<open>
  The pattern of line 54, \<^verbatim>\<open>\[.*?\]\(https://(?:www\.)?wowhead\.com/[^\)]*item=\d+[^\)]*\)\<close>,
  and the pattern of line 38,
  \<^verbatim>\<open>https://(?:www\.)?wowhead\.com/[^\s\)]*item=(\d+)[^\s\)]*\<close>.
\<close>

definition fixed_link_re :: "atom list" where
  "fixed_link_re =
     [Lit (py_chars ''[''), Lazy Dot, Lit (py_chars ''](''), Lit (py_chars ''https://''),
      Opt (py_chars ''www.''), Lit (py_chars ''wowhead.com/''), Star NotParen,
      Lit (py_chars ''item=''), Plus Digit, Star NotParen, Lit (py_chars '')'')]"

definition unfixed_link_re :: "atom list" where
  "unfixed_link_re =
     [Lit (py_chars ''https://''), Opt (py_chars ''www.''), Lit (py_chars ''wowhead.com/''),
      Star NotSpaceParen, Lit (py_chars ''item=''), Capture Digit, Star NotSpaceParen]"

subsection \<open>The enrichment\<close>

text \<open>
  The two requests the function makes: the token exchange of \<^verbatim>\<open>_get_blizzard_token\<close>,
  which raises on a response that is not 2xx, and the name lookup of \<^verbatim>\<open>get_item_name\<close>
  for an item id and a token, which catches every exception and returns \<^verbatim>\<open>None\<close> then.
  The requests made are logged; the lookups run in a thread pool and are logged in the
  order they are submitted.
\<close>

record blizzard =
  get_token :: "error + string"
  get_item_name :: "string \<Rightarrow> string \<Rightarrow> string option"

datatype request = TokenRequest | NameRequest string

text \<open>\<^verbatim>\<open>dict.fromkeys\<close> of a list, as a list: the first occurrence of every element.\<close>

definition dict_fromkeys :: "string list \<Rightarrow> string list" where
  "dict_fromkeys xs = rev (remdups (rev xs))"

text \<open>
  The working copy with the display links blanked, one space for each character of a
  match, and the ids found in it; an id is a text, the characters of group 1.
\<close>

definition blanked :: "string list \<Rightarrow> string list" where
  "blanked content' = re_sub fixed_link_re (\<lambda>m g. replicate (length m) '' '') content'"

definition item_ids :: "string \<Rightarrow> string list" where
  "item_ids content' =
     dict_fromkeys (map concat (findall unfixed_link_re (blanked (py_chars content'))))"

text \<open>The dictionary filled from the lookups: an id is a key when its name is not empty.\<close>

definition id_to_name :: "blizzard \<Rightarrow> string \<Rightarrow> string list \<Rightarrow> string \<rightharpoonup> string" where
  "id_to_name B tok ids item_id =
     (if item_id \<in> set ids then
        (case get_item_name B item_id tok of
           None \<Rightarrow> None
         | Some name \<Rightarrow> if name \<noteq> [] then Some name else None)
      else None)"

definition replace_match ::
  "(string \<rightharpoonup> string) \<Rightarrow> string list \<Rightarrow> string list option \<Rightarrow> string list" where
  "replace_match names m g =
     (case g of
        None \<Rightarrow> m
      | Some item_id \<Rightarrow>
          (case names (concat item_id) of
             None \<Rightarrow> m
           | Some name \<Rightarrow>
               if name \<noteq> []
               then py_chars (''['' @ name @ ''](https://www.wowhead.com/ru/item='' @ concat item_id @ '')'')
               else m))"

text \<open>
  \<^verbatim>\<open>replace_unfixed\<close>: the loop over the matches of the first pattern, with \<^verbatim>\<open>pos\<close> and
  \<^verbatim>\<open>result\<close>, then the last chunk.
\<close>

fun replace_loop ::
  "(string \<rightharpoonup> string) \<Rightarrow> string list \<Rightarrow> nat \<Rightarrow> string list \<Rightarrow> (nat \<times> nat) list \<Rightarrow> string list" where
  "replace_loop names content' pos result [] =
     result @ re_sub unfixed_link_re (replace_match names) (drop pos content')"
| "replace_loop names content' pos result ((start, end') # rest) =
     replace_loop names content' end'
       (result
        @ re_sub unfixed_link_re (replace_match names) (take (start - pos) (drop pos content'))
        @ take (end' - start) (drop start content'))
       rest"

definition replace_unfixed :: "(string \<rightharpoonup> string) \<Rightarrow> string \<Rightarrow> string" where
  "replace_unfixed names content' =
     concat (replace_loop names (py_chars content') 0 [] (finditer fixed_link_re (py_chars content')))"

text \<open>
  \<^verbatim>\<open>fix_item_links\<close>: the exception it ends with, if any, the message as it leaves it, and
  the requests it made.
\<close>

definition fix_item_links :: "blizzard \<Rightarrow> message \<Rightarrow> error option \<times> message \<times> request list" where
  "fix_item_links B message =
     (let ids = item_ids (content message)
      in if ids = [] then (None, message, [])
         else
           (case get_token B of
              Inl e \<Rightarrow> (Some e, message, [TokenRequest])
            | Inr tok \<Rightarrow>
                (None,
                 message\<lparr>content := replace_unfixed (id_to_name B tok ids) (content message)\<rparr>,
                 TokenRequest # map NameRequest ids)))"

section \<open>Notions used in the statements about the cascade insertion\<close>

text \<open>
  The bot's own messages of a list, the part of the channel from the target message on,
  the two edits the command makes (the shift edit, which copies the content, files and
  embeds of \<^verbatim>\<open>msg_nxt\<close>, and the final edit of the target), the channel list after all
  shift edits, the log of a run of shift edits over a list of messages, and the message
  that \<^verbatim>\<open>send("*** ***")\<close> appends.
\<close>

definition owned :: "env \<Rightarrow> message list \<Rightarrow> message list" where
  "owned E ch = filter (\<lambda>m. author m = bot_user E) ch"

definition from_target :: "message \<Rightarrow> message list \<Rightarrow> message list" where
  "from_target message ch = dropWhile (\<lambda>m. msg_id m \<noteq> msg_id message) ch"

definition copy_from :: "message \<Rightarrow> message \<Rightarrow> message" where
  "copy_from msg_nxt m = m\<lparr>content := content msg_nxt, attachments := attachments msg_nxt,
       embeds := embeds msg_nxt, suppress_embeds := (embeds msg_nxt = [])\<rparr>"

definition placeholder_edit :: "message \<Rightarrow> message" where
  "placeholder_edit m = m\<lparr>content := ''**[PH]**'', suppress_embeds := True, embeds := []\<rparr>"

fun shifted :: "env \<Rightarrow> message \<Rightarrow> message list \<Rightarrow> message list" where
  "shifted E prev [] = []"
| "shifted E prev (m # ms) =
     (if author m = bot_user E then copy_from prev m # shifted E m ms
      else m # shifted E prev ms)"

definition shift_events :: "message list \<Rightarrow> event list" where
  "shift_events L = concat (map (\<lambda>(msg_crt, msg_nxt).
       [Fetched (msg_id msg_crt), Fetched (msg_id msg_nxt),
        Edited (msg_id msg_crt) (copy_from msg_nxt msg_crt)]) (zip L (tl L)))"

definition placeholder_msg :: "env \<Rightarrow> message list \<Rightarrow> message" where
  "placeholder_msg E ch = \<lparr>msg_id = fresh_id ch, author = bot_user E, content = ''*** ***'',
       attachments = [], embeds = [], suppress_embeds = False\<rparr>"

text \<open>
  The pairing as the specification words it, for the bot's messages \<^verbatim>\<open>[id_0 .. id_n]\<close>
  listed oldest to newest: for each \<^verbatim>\<open>i\<close> in increasing order, \<^verbatim>\<open>id_i\<close> is overwritten
  with the content, files and embeds of \<^verbatim>\<open>id_(i+1)\<close>.
\<close>

definition spec_cascade_events :: "message list \<Rightarrow> event list" where
  "spec_cascade_events L = concat (map (\<lambda>i.
       [Fetched (msg_id (L ! i)), Fetched (msg_id (L ! (i + 1))),
        Edited (msg_id (L ! i)) (copy_from (L ! (i + 1)) (L ! i))]) [0 ..< length L - 1])"

text \<open>The log a command leaves; empty when it raised.\<close>

definition events_of :: "error + world \<Rightarrow> event list" where
  "events_of r = (case r of Inl e \<Rightarrow> [] | Inr w \<Rightarrow> events w)"

text \<open>A small channel for the concrete runs: the bot is user 7, user 5 is someone else.\<close>

definition demo_env :: env where
  "demo_env = \<lparr>bot_user = 7, jump_url = (\<lambda>i. ''msg''), emojify = (\<lambda>s. s),
       deemojify = (\<lambda>s. s), reTitleGroup = (\<lambda>s. None),
       py_int = (\<lambda>s. if s = ''42'' then Some 42 else if s = ''5'' then Some 5 else None),
       get_user = (\<lambda>i. if i = 5 then Some \<lparr>user_id = 5, user_name = ''eve''\<rparr> else None),
       channel_id = 100, channel_name = ''faq'', FILEPATH = ''data'',
       today_day = 3, today_month = 11\<rparr>"

definition demo_msg :: "nat \<Rightarrow> nat \<Rightarrow> string \<Rightarrow> message" where
  "demo_msg i a txt = \<lparr>msg_id = i, author = a, content = txt, attachments = [], embeds = [],
       suppress_embeds = True\<rparr>"

definition demo_world :: world where
  "demo_world = \<lparr>messages = [demo_msg 1 7 ''A'', demo_msg 2 5 ''x'', demo_msg 3 7 ''B''], events = []\<rparr>"

text \<open>The second loop of \<^verbatim>\<open>insert_message\<close> as a recursion over adjacent ids.\<close>

fun shift_pairs :: "env \<Rightarrow> nat list \<Rightarrow> world \<Rightarrow> error + world" where
  "shift_pairs E (a # b # rest) w =
     (case shift_step E [a, b] 0 w of Inl e \<Rightarrow> Inl e | Inr w' \<Rightarrow> shift_pairs E (b # rest) w')"
| "shift_pairs E [a] w = Inr w"
| "shift_pairs E [] w = Inr w"

section \<open>Notions used in the statements about republish, save and publish\<close>

text \<open>
  The test the command makes on a message without text: it has embeds and the title of the
  first one is the title of the table of contents.
\<close>

definition is_toc :: "message \<Rightarrow> bool" where
  "is_toc m = (embeds m \<noteq> [] \<and> emb_title (hd (embeds m)) = Some toc_title)"

text \<open>
  The table of contents of a channel: one line \<^verbatim>\<open>[title](link)\<close> for every message whose
  text starts with a title, in the order of the channel, the title without \<^verbatim>\<open>#\<close> and
  without white space at its ends and the link being the link to that message; and the
  one embed that carries it.
\<close>

fun toc_of :: "env \<Rightarrow> message list \<Rightarrow> string" where
  "toc_of E [] = []"
| "toc_of E (m # ms) =
     (case reTitleGroup E (content m) of
        None \<Rightarrow> toc_of E ms
      | Some title \<Rightarrow>
          ''['' @ py_strip (filter (\<lambda>c. c \<noteq> CHR ''#'') title) @ '']('' @ jump_url E (msg_id m) @ '')''
          @ [CHR 0x0A] @ toc_of E ms)"

definition toc_embed :: "env \<Rightarrow> message list \<Rightarrow> embed" where
  "toc_embed E ch = \<lparr>emb_title = Some toc_title, emb_description = Some (toc_of E ch),
       emb_colour = Some 0x5865F2\<rparr>"

text \<open>
  What the record \<^verbatim>\<open>r\<close> sent for a message \<^verbatim>\<open>m\<close> must be, case by case, when \<^verbatim>\<open>ch\<close> is the
  channel as it stands when \<^verbatim>\<open>m\<close> is reached; in the table-of-contents case the record
  carries the table of contents of \<^verbatim>\<open>ch\<close> and nothing else. Then the same for a whole
  run: \<^verbatim>\<open>todo\<close> are the messages still to be replaced, \<^verbatim>\<open>done\<close> the records sent so far,
  and the channel holds the ones followed by the others. Last, the calls the command
  makes for \<^verbatim>\<open>m\<close>: the summary's own response in the table-of-contents case, then the
  send, then the deletion of \<^verbatim>\<open>m\<close>.
\<close>

definition replaces :: "env \<Rightarrow> message list \<Rightarrow> message \<Rightarrow> message \<Rightarrow> bool" where
  "replaces E ch m r =
     (author r = bot_user E \<and>
      (if content m \<noteq> [] then
         content r = (if author m = bot_user E then content m else emojify E (content m))
         \<and> attachments r = attachments m \<and> embeds r = embeds m
         \<and> suppress_embeds r = (embeds m = [])
       else if is_toc m then
         content r = [] \<and> attachments r = [] \<and> embeds r = [toc_embed E ch]
         \<and> suppress_embeds r = False
       else content r = ''*** ***'' \<and> attachments r = [] \<and> embeds r = []
         \<and> suppress_embeds r = False))"

fun replaced :: "env \<Rightarrow> message list \<Rightarrow> message list \<Rightarrow> message list \<Rightarrow> bool" where
  "replaced E [] done news = (news = [])"
| "replaced E (m # todo) done [] = False"
| "replaced E (m # todo) done (r # news) =
     (replaces E (m # todo @ done) m r \<and> replaced E todo (done @ [r]) news)"

definition republish_calls :: "message \<Rightarrow> message \<Rightarrow> event list" where
  "republish_calls m r =
     (if content m = [] \<and> is_toc m then [Responded ''Starting the process...''] else [])
     @ [Sent r, Deleted (msg_id m)]"

definition demo_toc :: message where
  "demo_toc = \<lparr>msg_id = 3, author = 7, content = [], attachments = [],
       embeds = [\<lparr>emb_title = Some toc_title, emb_description = Some ''old'', emb_colour = None\<rparr>],
       suppress_embeds = False\<rparr>"

definition demo_channel :: world where
  "demo_channel = \<lparr>messages = [demo_msg 1 7 ''A'', demo_msg 2 5 ''x'', demo_toc, demo_msg 4 5 []],
       events = []\<rparr>"

text \<open>
  An environment in which the text \<^verbatim>\<open>A\<close> starts with the title \<^verbatim>\<open># A\<close> followed by a
  no-break space, and the link to a message ends with its id; and a message without text
  whose second embed, not its first, is titled as the table of contents.
\<close>

definition demo_titles :: env where
  "demo_titles = demo_env\<lparr>jump_url := (\<lambda>i. ''msg/'' @ str_nat i),
       reTitleGroup := (\<lambda>s. if s = ''A'' then Some (''# A'' @ [CHR 0xC2, CHR 0xA0]) else None)\<rparr>"

definition demo_second_toc :: message where
  "demo_second_toc = \<lparr>msg_id = 1, author = 7, content = [], attachments = [],
       embeds = [\<lparr>emb_title = None, emb_description = Some ''note'', emb_colour = None\<rparr>,
                 \<lparr>emb_title = Some toc_title, emb_description = Some ''old'', emb_colour = None\<rparr>],
       suppress_embeds = False\<rparr>"

text \<open>
  The object the export writes for a message, and the attachment files after a list of
  attachments has been saved: every attachment goes to the one file \<^verbatim>\<open>0.png\<close> of the
  export's directory.
\<close>

definition entry_of :: "env \<Rightarrow> string \<Rightarrow> message \<Rightarrow> bundle_entry" where
  "entry_of E filename msg =
     Entry (deemojify E (content msg))
       (replicate (length (attachments msg)) (filename @ ''/0.png''))
       (map emb_description (embeds msg))"

definition written :: "env \<Rightarrow> string \<Rightarrow> attachment list \<Rightarrow> filesystem \<Rightarrow> filesystem" where
  "written E filename atts fs =
     (if atts = [] then fs
      else fs\<lparr>fs_files := (fs_files fs)(FILEPATH E @ ''/'' @ filename @ ''/0.png'' \<mapsto> att_bytes (last atts))\<rparr>)"

definition demo_att :: "string \<Rightarrow> string \<Rightarrow> attachment" where
  "demo_att name bytes = \<lparr>att_filename = name, att_bytes = bytes\<rparr>"

definition demo_fs :: filesystem where
  "demo_fs = \<lparr>fs_files = Map.empty, fs_json = Map.empty\<rparr>"

definition demo_gallery :: world where
  "demo_gallery = \<lparr>messages =
       [demo_msg 1 7 ''A''\<lparr>attachments := [demo_att ''a.png'' ''AAA'', demo_att ''b.png'' ''BBB'']\<rparr>,
        demo_msg 2 5 ''x''\<lparr>attachments := [demo_att ''c.png'' ''CCC'']\<rparr>],
     events = []\<rparr>"

definition empty_channel :: world where
  "empty_channel = \<lparr>messages = [], events = []\<rparr>"

section \<open>Notions used in the statements about the link enrichment\<close>













definition demo_down :: blizzard where
  "demo_down = \<lparr>get_token = Inl HTTPError, get_item_name = (\<lambda>i tok. None)\<rparr>"


definition demo_arabic :: string where
  "demo_arabic = ''https://wowhead.com/item='' @ [CHR 0xD9, CHR 0xA3]"

definition demo_split :: string where
  "demo_split = ''https://wowhead.com/foo'' @ [CHR 0xC2, CHR 0xA0] @ ''item=5''"

section \<open>Properties of the cascade insertion\<close>

lemma for_each_map: "for_each (map f xs) body s = for_each xs (\<lambda>x. body (f x)) s"
  by (induction xs arbitrary: s) (auto split: sum.splits)

lemma shift_step_Cons: "shift_step E (a # ids) (Suc i) = shift_step E ids i"
  by (rule ext) (auto simp: shift_step_def split: sum.splits prod.splits)

lemma shift_step_head: "shift_step E (a # b # rest) 0 = shift_step E [a, b] 0"
  by (rule ext) (auto simp: shift_step_def split: sum.splits prod.splits)

lemma upt_0_Suc_map: "[0 ..< Suc n] = 0 # map Suc [0 ..< n]"
  by (simp add: upt_conv_Cons map_Suc_upt del: upt_Suc)

lemma for_each_shift_pairs:
  "for_each [0 ..< length (butlast ids)] (shift_step E ids) w = shift_pairs E ids w"
proof (induction E ids w rule: shift_pairs.induct)
  case (1 E a b rest w)
  let ?n = "length (butlast (b # rest))"
  have len: "length (butlast (a # b # rest)) = Suc ?n" by simp
  have "for_each [0 ..< Suc ?n] (shift_step E (a # b # rest)) w
      = for_each (0 # map Suc [0 ..< ?n]) (shift_step E (a # b # rest)) w"
    by (simp only: upt_0_Suc_map)
  also have "\<dots> = (case shift_step E [a, b] 0 w of Inl e \<Rightarrow> Inl e
       | Inr w' \<Rightarrow> for_each [0 ..< ?n] (shift_step E (b # rest)) w')"
    by (simp only: for_each.simps for_each_map shift_step_head[of E a b rest] shift_step_Cons cong: sum.case_cong)
  finally have eq: "for_each [0 ..< Suc ?n] (shift_step E (a # b # rest)) w = (case shift_step E [a, b] 0 w of Inl e \<Rightarrow> Inl e
       | Inr w' \<Rightarrow> for_each [0 ..< ?n] (shift_step E (b # rest)) w')" .
  show ?case
  proof (cases "shift_step E [a, b] 0 w")
    case (Inl e)
    then show ?thesis by (simp only: len eq shift_pairs.simps sum.case)
  next
    case (Inr w')
    then show ?thesis using 1[OF Inr] by (simp only: len eq shift_pairs.simps sum.case)
  qed
next
  case (2 E a w) show ?case by simp
next
  case (3 E w) show ?case by simp
qed


lemma find_by_id:
  "distinct (map msg_id ch) \<Longrightarrow> m \<in> set ch \<Longrightarrow> find (\<lambda>x. msg_id x = msg_id m) ch = Some m"
  by (induction ch) (auto simp: image_iff)

lemma map_upd_by_id:
  "distinct (map msg_id (xs @ m # ys)) \<Longrightarrow>
   map (\<lambda>x. if msg_id x = msg_id m then f x else x) (xs @ m # ys) = xs @ f m # ys"
  by (auto intro!: map_idI simp: image_iff)

lemma shift_step_pair:
  assumes d: "distinct (map msg_id (xs @ m # ys))"
    and b: "mb \<in> set (xs @ m # ys)" and bot: "author m = bot_user E"
  shows "shift_step E [msg_id m, msg_id mb] 0 \<lparr>messages = xs @ m # ys, events = ev\<rparr>
       = Inr \<lparr>messages = xs @ copy_from mb m # ys,
              events = ev @ [Fetched (msg_id m), Fetched (msg_id mb), Edited (msg_id m) (copy_from mb m)]\<rparr>"
proof -
  have fm: "find (\<lambda>x. msg_id x = msg_id m) (xs @ m # ys) = Some m"
    using find_by_id[OF d, of m] by simp
  have fb: "find (\<lambda>x. msg_id x = msg_id mb) (xs @ m # ys) = Some mb"
    using find_by_id[OF d b] .
  show ?thesis
    unfolding shift_step_def fetch_message_def edit_message_def
    using fm fb map_upd_by_id[OF d, of "copy_from mb", unfolded copy_from_def] bot
    by (simp add: copy_from_def)
qed

lemma shifted_append:
  "shifted E prev (xs @ ys) = shifted E prev xs @ shifted E (last (prev # owned E xs)) ys"
  by (induction xs arbitrary: prev) (auto simp: owned_def)

lemma shifted_ids: "map msg_id (shifted E prev xs) = map msg_id xs"
  by (induction xs arbitrary: prev) (auto simp: copy_from_def)

lemma shifted_authors: "map author (shifted E prev xs) = map author xs"
  by (induction xs arbitrary: prev) (auto simp: copy_from_def)

lemma shift_events_Cons:
  "L \<noteq> [] \<Longrightarrow> shift_events (m # L) =
     [Fetched (msg_id m), Fetched (msg_id (hd L)), Edited (msg_id m) (copy_from (hd L) m)] @ shift_events L"
  by (cases L) (simp_all add: shift_events_def)

lemma shift_pairs_channel:
  assumes "distinct (map msg_id (pre @ t # post @ extra))" and "author t = bot_user E"
  shows "shift_pairs E (map msg_id (rev (owned E (t # post))))
           \<lparr>messages = pre @ t # post @ extra, events = ev\<rparr>
       = Inr \<lparr>messages = pre @ t # shifted E t post @ extra,
              events = ev @ shift_events (rev (owned E (t # post)))\<rparr>"
  using assms
proof (induction post arbitrary: extra ev rule: rev_induct)
  case Nil
  then show ?case by (simp add: owned_def shift_events_def)
next
  case (snoc m post)
  show ?case
  proof (cases "author m = bot_user E")
    case False
    have "distinct (map msg_id (pre @ t # post @ (m # extra)))" using snoc.prems(1) by simp
    from snoc.IH[OF this snoc.prems(2), of ev] False snoc.prems(2) show ?thesis
      by (simp add: shifted_append owned_def)
  next
    case True
    let ?L = "rev (owned E (t # post))"
    let ?lb = "hd ?L"
    have Lne: "?L \<noteq> []" using snoc.prems(2) by (simp add: owned_def)
    have lb_in: "?lb \<in> set (t # post)"
      using Lne hd_in_set[OF Lne] by (auto simp: owned_def)
    have lb_last: "?lb = last (t # owned E post)"
      using snoc.prems(2) by (simp add: owned_def hd_rev)
    have ids: "map msg_id (rev (owned E (t # post @ [m])))
             = msg_id m # msg_id ?lb # map msg_id (tl ?L)"
      using True Lne snoc.prems(2) by (cases ?L) (auto simp: owned_def)
    have tlL: "msg_id ?lb # map msg_id (tl ?L) = map msg_id ?L"
      using Lne by (cases ?L) auto
    have d1: "distinct (map msg_id ((pre @ t # post) @ m # extra))" using snoc.prems(1) by simp
    have b1: "?lb \<in> set ((pre @ t # post) @ m # extra)" using lb_in by auto
    have step: "shift_step E [msg_id m, msg_id ?lb] 0 \<lparr>messages = pre @ t # (post @ [m]) @ extra, events = ev\<rparr>
       = Inr \<lparr>messages = pre @ t # post @ (copy_from ?lb m # extra),
              events = ev @ [Fetched (msg_id m), Fetched (msg_id ?lb), Edited (msg_id m) (copy_from ?lb m)]\<rparr>"
      using shift_step_pair[OF d1 b1 True, of ev] by simp
    have d2: "distinct (map msg_id (pre @ t # post @ (copy_from ?lb m # extra)))"
      using snoc.prems(1) by (simp add: copy_from_def)
    have ev_eq: "shift_events (rev (owned E (t # post @ [m])))
        = [Fetched (msg_id m), Fetched (msg_id ?lb), Edited (msg_id m) (copy_from ?lb m)] @ shift_events ?L"
      using shift_events_Cons[OF Lne, of m] True snoc.prems(2) by (simp add: owned_def)
    have sh: "shifted E t (post @ [m]) = shifted E t post @ [copy_from ?lb m]"
      using True by (simp add: shifted_append lb_last)
    have "shift_pairs E (msg_id m # msg_id ?lb # map msg_id (tl ?L))
            \<lparr>messages = pre @ t # (post @ [m]) @ extra, events = ev\<rparr>
        = shift_pairs E (msg_id ?lb # map msg_id (tl ?L))
            \<lparr>messages = pre @ t # post @ (copy_from ?lb m # extra),
              events = ev @ [Fetched (msg_id m), Fetched (msg_id ?lb), Edited (msg_id m) (copy_from ?lb m)]\<rparr>"
      by (simp only: shift_pairs.simps step sum.case)
    also have "\<dots> = Inr \<lparr>messages = pre @ t # shifted E t post @ (copy_from ?lb m # extra),
              events = (ev @ [Fetched (msg_id m), Fetched (msg_id ?lb), Edited (msg_id m) (copy_from ?lb m)])
                  @ shift_events ?L\<rparr>"
      unfolding tlL using snoc.IH[OF d2 snoc.prems(2)] .
    finally show ?thesis
      unfolding ids by (simp add: ev_eq sh)
  qed
qed


lemma fresh_id_greater: "m \<in> set ch \<Longrightarrow> msg_id m < fresh_id ch"
  by (induction ch) (auto simp: fresh_id_def)

lemma fresh_id_notin: "fresh_id ch \<notin> msg_id ` set ch"
  using fresh_id_greater by fastforce

lemma collect_bot_msgs_split:
  assumes "author t = bot_user E" and "msg_id message = msg_id t"
    and "\<forall>x\<in>set xs. msg_id x \<noteq> msg_id t"
  shows "collect_bot_msgs E message (xs @ t # ys) = map msg_id (owned E xs) @ [msg_id t]"
  using assms by (induction xs) (auto simp: owned_def)

lemma insert_message_result:
  assumes d: "distinct (map msg_id (pre @ t # post))" and bot: "author t = bot_user E"
    and mid: "msg_id message = msg_id t"
  shows "insert_message E message \<lparr>messages = pre @ t # post, events = ev\<rparr>
       = Inr \<lparr>messages = pre @ placeholder_edit t # shifted E t (post @ [placeholder_msg E (pre @ t # post)]),
              events = ev @ [Responded (''Inserted empty message at '' @ jump_url E (msg_id message)),
                             Sent (placeholder_msg E (pre @ t # post))]
                 @ shift_events (rev (owned E (t # post @ [placeholder_msg E (pre @ t # post)])))
                 @ [Edited (msg_id t) (placeholder_edit t)]\<rparr>"
proof -
  let ?p = "placeholder_msg E (pre @ t # post)"
  let ?ev1 = "ev @ [Responded (''Inserted empty message at '' @ jump_url E (msg_id message)), Sent ?p]"
  let ?w2 = "\<lparr>messages = pre @ t # (post @ [?p]) @ [], events = ?ev1\<rparr>"
  have pid: "msg_id ?p = fresh_id (pre @ t # post)" by (simp add: placeholder_msg_def)
  have d2: "distinct (map msg_id (pre @ t # (post @ [?p]) @ []))"
    using d fresh_id_notin[of "pre @ t # post"] by (simp add: pid image_Un)
  have w2: "send E ''*** ***'' [] [] False
              (respond (''Inserted empty message at '' @ jump_url E (msg_id message))
                 \<lparr>messages = pre @ t # post, events = ev\<rparr>) = ?w2"
    by (simp add: send_def respond_def placeholder_msg_def Let_def)
  have nt: "\<forall>x\<in>set (rev (post @ [?p])). msg_id x \<noteq> msg_id t"
    using d2 by (auto simp: image_iff)
  have coll: "collect_bot_msgs E message (history False ?w2)
            = map msg_id (rev (owned E (t # post @ [?p])))"
  proof -
    have h: "history False ?w2 = rev (post @ [?p]) @ t # rev pre" by (simp add: history_def)
    have o: "map msg_id (rev (owned E (t # post @ [?p])))
           = map msg_id (owned E (rev (post @ [?p]))) @ [msg_id t]"
      using bot by (simp add: owned_def rev_filter)
    show ?thesis unfolding h o using collect_bot_msgs_split[OF bot mid nt, of "rev pre"] .
  qed
  have loop: "for_each [0 ..< length (butlast (collect_bot_msgs E message (history False ?w2)))]
               (shift_step E (collect_bot_msgs E message (history False ?w2))) ?w2
        = Inr \<lparr>messages = pre @ t # shifted E t (post @ [?p]) @ [],
               events = ?ev1 @ shift_events (rev (owned E (t # post @ [?p])))\<rparr>"
    unfolding coll for_each_shift_pairs using shift_pairs_channel[OF d2 bot] .
  have d3: "distinct (map msg_id (pre @ t # shifted E t (post @ [?p])))"
    using d2 by (simp add: shifted_ids)
  have ft: "find (\<lambda>x. msg_id x = msg_id t) (pre @ t # shifted E t (post @ [?p])) = Some t"
    using find_by_id[OF d3, of t] by simp
  have "edit_message E (msg_id message)
          (\<lambda>m. m\<lparr>content := ''**[PH]**'', suppress_embeds := True, embeds := []\<rparr>)
          \<lparr>messages = pre @ t # shifted E t (post @ [?p]) @ [],
               events = ?ev1 @ shift_events (rev (owned E (t # post @ [?p])))\<rparr>
      = Inr \<lparr>messages = pre @ placeholder_edit t # shifted E t (post @ [?p]),
              events = ?ev1 @ shift_events (rev (owned E (t # post @ [?p])))
                 @ [Edited (msg_id t) (placeholder_edit t)]\<rparr>"
    unfolding edit_message_def mid
    using ft bot map_upd_by_id[OF d3, of placeholder_edit, unfolded placeholder_edit_def]
    by (simp add: placeholder_edit_def)
  then show ?thesis
    unfolding insert_message_def Let_def w2 loop sum.case by simp
qed


lemma owned_Cons:
  "owned E (m # ms) = (if author m = bot_user E then m # owned E ms else owned E ms)"
  by (simp add: owned_def)

lemma owned_Nil: "owned E [] = []"
  by (simp add: owned_def)

lemma owned_append: "owned E (xs @ ys) = owned E xs @ owned E ys"
  by (simp add: owned_def)

lemma shifted_owned_contents:
  "map content (owned E (shifted E prev xs)) = map content (butlast (prev # owned E xs))"
  by (induction xs arbitrary: prev) (auto simp: owned_def copy_from_def)

lemma from_target_split:
  assumes "\<forall>x\<in>set pre. msg_id x \<noteq> msg_id message" and "msg_id t = msg_id message"
  shows "from_target message (pre @ t # rest) = t # rest"
  using assms by (simp add: from_target_def dropWhile_append)

lemma world_eq: "w = \<lparr>messages = messages w, events = events w\<rparr>"
  by simp

lemma insert_message_target_in_channel:
  assumes d: "distinct (map msg_id (messages w))" and m: "message \<in> set (messages w)"
    and bot: "author message = bot_user E"
  obtains pre post where "messages w = pre @ message # post"
    and "\<forall>x\<in>set pre. msg_id x \<noteq> msg_id message"
    and "insert_message E message w
       = Inr \<lparr>messages = pre @ placeholder_edit message
                         # shifted E message (post @ [placeholder_msg E (messages w)]),
              events = events w @ [Responded (''Inserted empty message at '' @ jump_url E (msg_id message)),
                             Sent (placeholder_msg E (messages w))]
                 @ shift_events (rev (owned E (message # post @ [placeholder_msg E (messages w)])))
                 @ [Edited (msg_id message) (placeholder_edit message)]\<rparr>"
proof -
  from split_list[OF m] obtain pre post where sp: "messages w = pre @ message # post" by blast
  have d': "distinct (map msg_id (pre @ message # post))" using d sp by simp
  have np: "\<forall>x\<in>set pre. msg_id x \<noteq> msg_id message" using d' by (auto simp: image_iff)
  have "insert_message E message \<lparr>messages = pre @ message # post, events = events w\<rparr>
       = Inr \<lparr>messages = pre @ placeholder_edit message
                         # shifted E message (post @ [placeholder_msg E (pre @ message # post)]),
              events = events w @ [Responded (''Inserted empty message at '' @ jump_url E (msg_id message)),
                             Sent (placeholder_msg E (pre @ message # post))]
                 @ shift_events (rev (owned E (message # post @ [placeholder_msg E (pre @ message # post)])))
                 @ [Edited (msg_id message) (placeholder_edit message)]\<rparr>"
    using insert_message_result[OF d' bot refl] .
  then have "insert_message E message w
       = Inr \<lparr>messages = pre @ placeholder_edit message
                         # shifted E message (post @ [placeholder_msg E (messages w)]),
              events = events w @ [Responded (''Inserted empty message at '' @ jump_url E (msg_id message)),
                             Sent (placeholder_msg E (messages w))]
                 @ shift_events (rev (owned E (message # post @ [placeholder_msg E (messages w)])))
                 @ [Edited (msg_id message) (placeholder_edit message)]\<rparr>"
    using sp world_eq[of w] by metis
  with sp np show thesis using that by blast
qed

text \<open>
  Claim C1. Let the bot own \<^verbatim>\<open>k\<close> messages from the target message to the newest one.
  Then \<^verbatim>\<open>insert_message\<close> returns, no message changes its id or its place and one
  message is appended, the bot owns \<^verbatim>\<open>k + 1\<close> messages from the target on, and their
  contents read oldest to newest are the inserted placeholder text \<^verbatim>\<open>**[PH]**\<close> in the
  target's slot followed by the \<^verbatim>\<open>k\<close> former contents in their order: every later
  message holds what its predecessor held, and the appended message holds what was the
  bot's newest content.
\<close>

theorem insert_message_shifts_content:
  assumes "distinct (map msg_id (messages w))" and "message \<in> set (messages w)"
    and "author message = bot_user E"
  shows "\<exists>w'. insert_message E message w = Inr w'
     \<and> map msg_id (messages w') = map msg_id (messages w) @ [fresh_id (messages w)]
     \<and> length (owned E (from_target message (messages w')))
         = Suc (length (owned E (from_target message (messages w))))
     \<and> map content (owned E (from_target message (messages w')))
         = ''**[PH]**'' # map content (owned E (from_target message (messages w)))"
proof -
  from insert_message_target_in_channel[OF assms] obtain pre post where
    sp: "messages w = pre @ message # post"
    and np: "\<forall>x\<in>set pre. msg_id x \<noteq> msg_id message"
    and res: "insert_message E message w
       = Inr \<lparr>messages = pre @ placeholder_edit message
                         # shifted E message (post @ [placeholder_msg E (messages w)]),
              events = events w @ [Responded (''Inserted empty message at '' @ jump_url E (msg_id message)),
                             Sent (placeholder_msg E (messages w))]
                 @ shift_events (rev (owned E (message # post @ [placeholder_msg E (messages w)])))
                 @ [Edited (msg_id message) (placeholder_edit message)]\<rparr>"
    by blast
  let ?p = "placeholder_msg E (messages w)"
  let ?ch' = "pre @ placeholder_edit message # shifted E message (post @ [?p])"
  have ids: "map msg_id ?ch' = map msg_id (messages w) @ [fresh_id (messages w)]"
    by (simp add: sp shifted_ids placeholder_edit_def placeholder_msg_def)
  have ft': "from_target message ?ch' = placeholder_edit message # shifted E message (post @ [?p])"
    using from_target_split[OF np, of "placeholder_edit message"] by (simp add: placeholder_edit_def)
  have ft: "from_target message (messages w) = message # post"
    unfolding sp using from_target_split[OF np, of message] by simp
  have own: "owned E (post @ [?p]) = owned E post @ [?p]"
    by (simp add: owned_def placeholder_msg_def)
  have c: "map content (owned E (from_target message ?ch'))
         = ''**[PH]**'' # map content (owned E (from_target message (messages w)))"
    unfolding ft ft' using assms(3)
    by (simp add: owned_Cons shifted_owned_contents own placeholder_edit_def)
  from c have "length (map content (owned E (from_target message ?ch')))
      = length (''**[PH]**'' # map content (owned E (from_target message (messages w))))"
    by (rule arg_cong)
  then have l: "length (owned E (from_target message ?ch'))
      = Suc (length (owned E (from_target message (messages w))))" by simp
  show ?thesis using res ids l c by simp
qed


lemma collect_after_send:
  assumes d: "distinct (map msg_id (messages w))" and m: "message \<in> set (messages w)"
    and bot: "author message = bot_user E"
  shows "collect_bot_msgs E message (history False (send E ''*** ***'' [] [] False (respond r w)))
       = fresh_id (messages w) # rev (map msg_id (owned E (from_target message (messages w))))"
proof -
  from split_list[OF m] obtain pre post where sp: "messages w = pre @ message # post" by blast
  have d': "distinct (map msg_id (pre @ message # post))" using d sp by simp
  have np: "\<forall>x\<in>set pre. msg_id x \<noteq> msg_id message" using d' by (auto simp: image_iff)
  have nt: "\<forall>x\<in>set (rev post). msg_id x \<noteq> msg_id message" using d' by (auto simp: image_iff)
  have ft: "from_target message (messages w) = message # post"
    unfolding sp using from_target_split[OF np, of message] by simp
  have h: "history False (send E ''*** ***'' [] [] False (respond r w))
         = placeholder_msg E (messages w) # (rev post @ message # rev pre)"
    by (simp add: history_def send_def respond_def Let_def placeholder_msg_def sp)
  have ne: "msg_id message \<noteq> fresh_id (messages w)"
    using fresh_id_greater[OF m] by simp
  show ?thesis
    unfolding h ft using collect_bot_msgs_split[OF bot refl nt, of "rev pre"] bot ne
    by (simp add: placeholder_msg_def owned_Cons owned_def[of E "rev post"] owned_def[of E post] rev_filter rev_map)
qed

text \<open>
  Claim C2, as amended. The collected ids are ordered newest to oldest: the appended
  placeholder first, the target last. For each adjacent pair of them, taken in that
  order, the command fetches both messages and overwrites the newer one with the content,
  files and embeds of its older neighbour, whose own overwrite comes later; the steps are
  logged one after another, and the edit of the target is the last call.
\<close>

theorem insert_message_shift_order:
  assumes "distinct (map msg_id (messages w))" and "message \<in> set (messages w)"
    and "author message = bot_user E"
  shows "collect_bot_msgs E message (history False (send E ''*** ***'' [] [] False
             (respond (''Inserted empty message at '' @ jump_url E (msg_id message)) w)))
         = fresh_id (messages w) # rev (map msg_id (owned E (from_target message (messages w))))
     \<and> (\<exists>w'. insert_message E message w = Inr w'
          \<and> events w' = events w
               @ [Responded (''Inserted empty message at '' @ jump_url E (msg_id message)),
                  Sent (placeholder_msg E (messages w))]
               @ shift_events (placeholder_msg E (messages w)
                                 # rev (owned E (from_target message (messages w))))
               @ [Edited (msg_id message) (placeholder_edit message)])"
proof -
  from insert_message_target_in_channel[OF assms] obtain pre post where
    sp: "messages w = pre @ message # post"
    and np: "\<forall>x\<in>set pre. msg_id x \<noteq> msg_id message"
    and res: "insert_message E message w
       = Inr \<lparr>messages = pre @ placeholder_edit message
                         # shifted E message (post @ [placeholder_msg E (messages w)]),
              events = events w @ [Responded (''Inserted empty message at '' @ jump_url E (msg_id message)),
                             Sent (placeholder_msg E (messages w))]
                 @ shift_events (rev (owned E (message # post @ [placeholder_msg E (messages w)])))
                 @ [Edited (msg_id message) (placeholder_edit message)]\<rparr>"
    by blast
  have ft: "from_target message (messages w) = message # post"
    unfolding sp using from_target_split[OF np, of message] by simp
  have L: "rev (owned E (message # post @ [placeholder_msg E (messages w)]))
         = placeholder_msg E (messages w) # rev (owned E (from_target message (messages w)))"
    unfolding ft using assms(3) by (simp add: owned_Cons owned_Nil owned_append placeholder_msg_def)
  show ?thesis using res collect_after_send[OF assms] unfolding L by simp
qed

lemma shifted_no_owned: "owned E xs = [] \<Longrightarrow> shifted E prev xs = xs"
  by (induction xs) (auto simp: owned_Cons split: if_splits)

text \<open>
  Claim C3, as amended. When the target is the newest message of the bot before the
  placeholder is appended, the collected list has two ids, the placeholder's and the
  target's; exactly one shift edit is made, which copies the target into the appended
  placeholder; then the target is overwritten with \<^verbatim>\<open>**[PH]**\<close>. No other message
  changes.
\<close>

theorem insert_message_target_newest:
  assumes "distinct (map msg_id (messages w))" and "message \<in> set (messages w)"
    and "author message = bot_user E"
    and "owned E (from_target message (messages w)) = [message]"
  shows "collect_bot_msgs E message (history False (send E ''*** ***'' [] [] False
             (respond (''Inserted empty message at '' @ jump_url E (msg_id message)) w)))
         = [fresh_id (messages w), msg_id message]
     \<and> (\<exists>w'. insert_message E message w = Inr w'
          \<and> events w' = events w
               @ [Responded (''Inserted empty message at '' @ jump_url E (msg_id message)),
                  Sent (placeholder_msg E (messages w)),
                  Fetched (fresh_id (messages w)), Fetched (msg_id message),
                  Edited (fresh_id (messages w)) (copy_from message (placeholder_msg E (messages w))),
                  Edited (msg_id message) (placeholder_edit message)]
          \<and> messages w' = map (\<lambda>m. if msg_id m = msg_id message then placeholder_edit m else m) (messages w)
               @ [copy_from message (placeholder_msg E (messages w))])"
proof -
  from insert_message_target_in_channel[OF assms(1-3)] obtain pre post where
    sp: "messages w = pre @ message # post"
    and np: "\<forall>x\<in>set pre. msg_id x \<noteq> msg_id message"
    and res: "insert_message E message w
       = Inr \<lparr>messages = pre @ placeholder_edit message
                         # shifted E message (post @ [placeholder_msg E (messages w)]),
              events = events w @ [Responded (''Inserted empty message at '' @ jump_url E (msg_id message)),
                             Sent (placeholder_msg E (messages w))]
                 @ shift_events (rev (owned E (message # post @ [placeholder_msg E (messages w)])))
                 @ [Edited (msg_id message) (placeholder_edit message)]\<rparr>"
    by blast
  let ?p = "placeholder_msg E (messages w)"
  have ft: "from_target message (messages w) = message # post"
    unfolding sp using from_target_split[OF np, of message] by simp
  have op: "owned E post = []" using assms(3,4) unfolding ft by (simp add: owned_Cons)
  have L: "rev (owned E (message # post @ [?p])) = [?p, message]"
    using assms(3) op by (simp add: owned_Cons owned_Nil owned_append placeholder_msg_def)
  have sh: "shifted E message (post @ [?p]) = post @ [copy_from message ?p]"
    using op by (simp add: shifted_append shifted_no_owned placeholder_msg_def)
  have d': "distinct (map msg_id (pre @ message # post))" using assms(1) sp by simp
  have mp: "map (\<lambda>m. if msg_id m = msg_id message then placeholder_edit m else m) (messages w)
          = pre @ placeholder_edit message # post"
    unfolding sp using map_upd_by_id[OF d', of placeholder_edit] .
  have c: "collect_bot_msgs E message (history False (send E ''*** ***'' [] [] False
             (respond (''Inserted empty message at '' @ jump_url E (msg_id message)) w)))
         = [fresh_id (messages w), msg_id message]"
    using collect_after_send[OF assms(1-3)] assms(4) by simp
  have pid: "msg_id ?p = fresh_id (messages w)" by (simp add: placeholder_msg_def)
  show ?thesis
    using res c unfolding L sh mp by (simp add: shift_events_def pid)
qed


theorem insert_message_shifts_content_witness:
  "distinct (map msg_id (messages demo_world))
   \<and> demo_msg 1 7 ''A'' \<in> set (messages demo_world)
   \<and> author (demo_msg 1 7 ''A'') = bot_user demo_env
   \<and> (\<exists>w'. insert_message demo_env (demo_msg 1 7 ''A'') demo_world = Inr w'
         \<and> map msg_id (messages w') = [1, 2, 3, 4]
         \<and> map content (owned demo_env (from_target (demo_msg 1 7 ''A'') (messages w')))
             = [''**[PH]**'', ''A'', ''B''])"
proof -
  have h1: "distinct (map msg_id (messages demo_world))"
    by (simp add: demo_world_def demo_msg_def)
  have h2: "demo_msg 1 7 ''A'' \<in> set (messages demo_world)"
    by (simp add: demo_world_def)
  have h3: "author (demo_msg 1 7 ''A'') = bot_user demo_env"
    by (simp add: demo_msg_def demo_env_def)
  have before: "map content (owned demo_env (from_target (demo_msg 1 7 ''A'') (messages demo_world)))
      = [''A'', ''B'']"
    by (simp add: demo_world_def demo_msg_def demo_env_def owned_def from_target_def)
  have fresh: "fresh_id (messages demo_world) = 4"
    by (simp add: demo_world_def demo_msg_def fresh_id_def)
  have ids: "map msg_id (messages demo_world) = [1, 2, 3]"
    by (simp add: demo_world_def demo_msg_def)
  from insert_message_shifts_content[OF h1 h2 h3] show ?thesis
    unfolding before fresh ids using h1 h2 h3 by auto
qed

theorem insert_message_shift_order_witness:
  "distinct (map msg_id (messages demo_world))
   \<and> demo_msg 1 7 ''A'' \<in> set (messages demo_world)
   \<and> author (demo_msg 1 7 ''A'') = bot_user demo_env
   \<and> collect_bot_msgs demo_env (demo_msg 1 7 ''A'') (history False (send demo_env ''*** ***'' [] [] False
             (respond (''Inserted empty message at '' @ jump_url demo_env (msg_id (demo_msg 1 7 ''A''))) demo_world)))
         = [4, 3, 1]
   \<and> (\<exists>w'. insert_message demo_env (demo_msg 1 7 ''A'') demo_world = Inr w'
         \<and> events w' =
            [Responded ''Inserted empty message at msg'',
             Sent (demo_msg 4 7 ''*** ***''\<lparr>suppress_embeds := False\<rparr>),
             Fetched 4, Fetched 3, Edited 4 (demo_msg 4 7 ''B''),
             Fetched 3, Fetched 1, Edited 3 (demo_msg 3 7 ''A''),
             Edited 1 (demo_msg 1 7 ''**[PH]**'')])"
proof -
  have h1: "distinct (map msg_id (messages demo_world))"
    by (simp add: demo_world_def demo_msg_def)
  have h2: "demo_msg 1 7 ''A'' \<in> set (messages demo_world)"
    by (simp add: demo_world_def)
  have h3: "author (demo_msg 1 7 ''A'') = bot_user demo_env"
    by (simp add: demo_msg_def demo_env_def)
  have before: "owned demo_env (from_target (demo_msg 1 7 ''A'') (messages demo_world))
      = [demo_msg 1 7 ''A'', demo_msg 3 7 ''B'']"
    by (simp add: demo_world_def demo_msg_def demo_env_def owned_def from_target_def)
  have fresh: "fresh_id (messages demo_world) = 4"
    by (simp add: demo_world_def demo_msg_def fresh_id_def)
  have p: "placeholder_msg demo_env (messages demo_world) = demo_msg 4 7 ''*** ***''\<lparr>suppress_embeds := False\<rparr>"
    by (simp add: placeholder_msg_def fresh demo_env_def demo_msg_def)
  have ev: "events demo_world = []" by (simp add: demo_world_def)
  from insert_message_shift_order[OF h1 h2 h3] show ?thesis
    unfolding before fresh p ev using h1 h2 h3
    by (simp add: shift_events_def copy_from_def placeholder_edit_def demo_msg_def demo_env_def)
qed

text \<open>
  Claim C2 as stated fails: on the demo channel the pairs run from the placeholder down to
  the target and each newer message takes its older neighbour's content, where the
  specification's pairing would overwrite the target with its successor's content.
\<close>

theorem insert_message_cascade_counterexample:
  "events_of (insert_message demo_env (demo_msg 1 7 ''A'') demo_world)
     = [Responded ''Inserted empty message at msg'',
        Sent (demo_msg 4 7 ''*** ***''\<lparr>suppress_embeds := False\<rparr>),
        Fetched 4, Fetched 3, Edited 4 (demo_msg 4 7 ''B''),
        Fetched 3, Fetched 1, Edited 3 (demo_msg 3 7 ''A''),
        Edited 1 (demo_msg 1 7 ''**[PH]**'')]
   \<and> spec_cascade_events [demo_msg 1 7 ''A'', demo_msg 3 7 ''B'']
     = [Fetched 1, Fetched 3, Edited 1 (demo_msg 1 7 ''B'')]
   \<and> events_of (insert_message demo_env (demo_msg 1 7 ''A'') demo_world)
     \<noteq> [Responded ''Inserted empty message at msg'',
         Sent (demo_msg 4 7 ''*** ***''\<lparr>suppress_embeds := False\<rparr>)]
        @ spec_cascade_events [demo_msg 1 7 ''A'', demo_msg 3 7 ''B'']
        @ [Edited 1 (demo_msg 1 7 ''**[PH]**'')]"
  by code_simp

theorem insert_message_target_newest_witness:
  "distinct (map msg_id (messages demo_world))
   \<and> demo_msg 3 7 ''B'' \<in> set (messages demo_world)
   \<and> author (demo_msg 3 7 ''B'') = bot_user demo_env
   \<and> owned demo_env (from_target (demo_msg 3 7 ''B'') (messages demo_world)) = [demo_msg 3 7 ''B'']
   \<and> (\<exists>w'. insert_message demo_env (demo_msg 3 7 ''B'') demo_world = Inr w'
         \<and> messages w' = [demo_msg 1 7 ''A'', demo_msg 2 5 ''x'', demo_msg 3 7 ''**[PH]**'', demo_msg 4 7 ''B''])"
proof -
  have h1: "distinct (map msg_id (messages demo_world))"
    by (simp add: demo_world_def demo_msg_def)
  have h2: "demo_msg 3 7 ''B'' \<in> set (messages demo_world)"
    by (simp add: demo_world_def)
  have h3: "author (demo_msg 3 7 ''B'') = bot_user demo_env"
    by (simp add: demo_msg_def demo_env_def)
  have h4: "owned demo_env (from_target (demo_msg 3 7 ''B'') (messages demo_world)) = [demo_msg 3 7 ''B'']"
    by (simp add: demo_world_def demo_msg_def demo_env_def owned_def from_target_def)
  have fresh: "fresh_id (messages demo_world) = 4"
    by (simp add: demo_world_def demo_msg_def fresh_id_def)
  have p: "placeholder_msg demo_env (messages demo_world) = demo_msg 4 7 ''*** ***''\<lparr>suppress_embeds := False\<rparr>"
    by (simp add: placeholder_msg_def fresh demo_env_def demo_msg_def)
  have mp: "map (\<lambda>m. if msg_id m = msg_id (demo_msg 3 7 ''B'') then placeholder_edit m else m) (messages demo_world)
      = [demo_msg 1 7 ''A'', demo_msg 2 5 ''x'', demo_msg 3 7 ''**[PH]**'']"
    by (simp add: demo_world_def demo_msg_def placeholder_edit_def)
  have cp: "copy_from (demo_msg 3 7 ''B'') (demo_msg 4 7 ''*** ***''\<lparr>suppress_embeds := False\<rparr>) = demo_msg 4 7 ''B''"
    by (simp add: copy_from_def demo_msg_def)
  from insert_message_target_newest[OF h1 h2 h3 h4] show ?thesis
    unfolding p mp cp using h1 h2 h3 h4 by auto
qed

text \<open>
  Claim C3 as stated fails: with the bot's newest message as the target, two ids are
  collected and the appended placeholder is edited.
\<close>

theorem insert_message_target_newest_counterexample:
  "length (collect_bot_msgs demo_env (demo_msg 3 7 ''B'') (history False (send demo_env ''*** ***'' [] [] False
       (respond (''Inserted empty message at '' @ jump_url demo_env (msg_id (demo_msg 3 7 ''B''))) demo_world)))) \<noteq> 1
   \<and> Edited 4 (demo_msg 4 7 ''B'') \<in> set (events_of (insert_message demo_env (demo_msg 3 7 ''B'') demo_world))"
  by code_simp

section \<open>Properties of republish\<close>

lemma fresh_id_append_ge: "fresh_id ch \<le> fresh_id (ch @ xs)"
  by (induction ch) (auto simp: fresh_id_def)

lemma fresh_id_Cons_ge: "fresh_id ch \<le> fresh_id (x # ch)"
  by (auto simp: fresh_id_def)

lemma fresh_id_snoc: "msg_id r < fresh_id (ch @ [r])"
  by (rule fresh_id_greater) simp

lemma summary_description_toc: "summary_description E msgs = toc_of E msgs"
  by (induction msgs) (auto simp: summary_description_def split: option.splits)

lemma replaced_length: "replaced E todo done news \<Longrightarrow> length news = length todo"
  by (induction E todo "done" news rule: replaced.induct) auto

lemma republish_step_result:
  assumes d: "distinct (map msg_id (m # rest))"
  shows "\<exists>r::message. republish_step E m \<lparr>messages = m # rest, events = ev\<rparr>
            = Inr \<lparr>messages = rest @ [r], events = ev @ republish_calls m r\<rparr>
          \<and> replaces E (m # rest) m r \<and> msg_id r = fresh_id (m # rest)"
proof -
  have flt: "\<And>r::message. msg_id r = fresh_id (m # rest) \<Longrightarrow>
      filter (\<lambda>x. msg_id x \<noteq> msg_id m) (m # rest @ [r]) = rest @ [r]"
  proof -
    fix r :: message assume r: "msg_id r = fresh_id (m # rest)"
    have "msg_id m < fresh_id (m # rest)" by (rule fresh_id_greater) simp
    then have "msg_id r \<noteq> msg_id m" using r by simp
    moreover have "filter (\<lambda>x. msg_id x \<noteq> msg_id m) rest = rest"
      using d by (auto simp: filter_id_conv image_iff)
    ultimately show "filter (\<lambda>x. msg_id x \<noteq> msg_id m) (m # rest @ [r]) = rest @ [r]" by simp
  qed
  show ?thesis
  proof (cases "content m \<noteq> []")
    case True
    then show ?thesis
      using flt
      by (auto simp: republish_step_def send_def delete_message_def Let_def replaces_def
            republish_calls_def)
  next
    case False
    then show ?thesis
      using flt
      by (auto simp: republish_step_def send_def delete_message_def Let_def replaces_def
            republish_calls_def summary_def respond_def is_toc_def history_def toc_embed_def
            summary_description_toc)
  qed
qed


lemma republish_loop:
  assumes "distinct (map msg_id (todo @ done))"
  shows "\<exists>news. for_each todo (republish_step E) \<lparr>messages = todo @ done, events = ev\<rparr>
            = Inr \<lparr>messages = done @ news,
                   events = ev @ concat (map2 republish_calls todo news)\<rparr>
          \<and> replaced E todo done news
          \<and> (\<forall>r\<in>set news. fresh_id (todo @ done) \<le> msg_id r)"
  using assms
proof (induction todo arbitrary: "done" ev)
  case Nil
  then show ?case by simp
next
  case (Cons m todo)
  from republish_step_result[of m "todo @ done" E ev] Cons.prems
  obtain r :: message where
    step: "republish_step E m \<lparr>messages = m # todo @ done, events = ev\<rparr>
            = Inr \<lparr>messages = (todo @ done) @ [r], events = ev @ republish_calls m r\<rparr>"
    and rep: "replaces E (m # todo @ done) m r" and rid: "msg_id r = fresh_id (m # todo @ done)"
    by auto
  have fresh: "\<forall>x\<in>set (todo @ done). msg_id x < msg_id r"
    unfolding rid using fresh_id_greater[of _ "m # todo @ done"] by auto
  have d': "distinct (map msg_id (todo @ (done @ [r])))"
    using Cons.prems fresh by (auto simp: image_iff)
  from Cons.IH[OF d', of "ev @ republish_calls m r"] obtain news where
    loop: "for_each todo (republish_step E)
             \<lparr>messages = todo @ (done @ [r]), events = ev @ republish_calls m r\<rparr>
          = Inr \<lparr>messages = (done @ [r]) @ news,
                 events = (ev @ republish_calls m r) @ concat (map2 republish_calls todo news)\<rparr>"
    and reps: "replaced E todo (done @ [r]) news"
    and ids: "\<forall>x\<in>set news. fresh_id (todo @ (done @ [r])) \<le> msg_id x"
    by blast
  have "msg_id r < fresh_id (todo @ (done @ [r]))"
    using fresh_id_snoc[of r "todo @ done"] by simp
  then have ids': "\<forall>x\<in>set (r # news). fresh_id ((m # todo) @ done) \<le> msg_id x"
    using ids rid by auto
  have "for_each (m # todo) (republish_step E) \<lparr>messages = (m # todo) @ done, events = ev\<rparr>
      = Inr \<lparr>messages = done @ (r # news),
             events = ev @ concat (map2 republish_calls (m # todo) (r # news))\<rparr>"
    using step loop by simp
  with rep reps ids' show ?case by (intro exI[of _ "r # news"]) simp
qed

text \<open>
  Claim C9, as amended. On a channel whose messages have distinct ids, \<^verbatim>\<open>republish\<close>
  returns; it walks the messages oldest first and for each one sends exactly one new
  record and then deletes the original, so that the channel ends up holding as many
  records as before, the replacements in the order of the originals, and none of the
  originals. The replacement is the text verbatim with attachments and embeds when the
  bot is the author of a non-empty text, the text through \<^verbatim>\<open>emojify\<close> when someone else
  is; when the text is empty and the first embed is titled as the table of contents, it
  is a record without text whose one embed is the table of contents of the channel as it
  stands at that moment (the originals not yet replaced, then the records sent so far);
  otherwise it is the placeholder \<^verbatim>\<open>*** ***\<close>, also when only a later embed carries that
  title.
\<close>

theorem republish_replaces_every_record:
  assumes "distinct (map msg_id (messages w))"
  shows "\<exists>w'. republish E w = Inr w'
     \<and> replaced E (messages w) [] (messages w')
     \<and> length (messages w') = length (messages w)
     \<and> events w' = events w @ [Responded ''Starting the process'']
           @ concat (map2 republish_calls (messages w) (messages w'))
     \<and> (\<forall>r\<in>set (messages w'). \<forall>m\<in>set (messages w). msg_id r \<noteq> msg_id m)"
proof -
  have d: "distinct (map msg_id (messages w @ []))" using assms by simp
  from republish_loop[OF d, of E "events w @ [Responded ''Starting the process'']"]
  obtain news where
    loop: "for_each (messages w) (republish_step E)
             \<lparr>messages = messages w @ [], events = events w @ [Responded ''Starting the process'']\<rparr>
          = Inr \<lparr>messages = [] @ news,
                 events = (events w @ [Responded ''Starting the process''])
                    @ concat (map2 republish_calls (messages w) news)\<rparr>"
    and reps: "replaced E (messages w) [] news"
    and ids: "\<forall>x\<in>set news. fresh_id (messages w @ []) \<le> msg_id x"
    by blast
  have w1: "respond ''Starting the process'' w
          = \<lparr>messages = messages w @ [], events = events w @ [Responded ''Starting the process'']\<rparr>"
    by (simp add: respond_def)
  have res: "republish E w = Inr \<lparr>messages = news,
                 events = events w @ [Responded ''Starting the process'']
                    @ concat (map2 republish_calls (messages w) news)\<rparr>"
    unfolding republish_def Let_def history_def w1 using loop by simp
  have "\<forall>r\<in>set news. \<forall>m\<in>set (messages w). msg_id r \<noteq> msg_id m"
  proof (intro ballI)
    fix r m assume "r \<in> set news" and "m \<in> set (messages w)"
    then have "fresh_id (messages w) \<le> msg_id r" and "msg_id m < fresh_id (messages w)"
      using ids fresh_id_greater by auto
    then show "msg_id r \<noteq> msg_id m" by simp
  qed
  with res reps replaced_length[OF reps] show ?thesis by simp
qed

theorem republish_replaces_every_record_witness:
  "distinct (map msg_id (messages demo_channel))
   \<and> (\<exists>w'. republish demo_titles demo_channel = Inr w'
        \<and> replaced demo_titles (messages demo_channel) [] (messages w')
        \<and> map msg_id (messages w') = [5, 6, 7, 8]
        \<and> map content (messages w') = [''A'', ''x'', [], ''*** ***'']
        \<and> map embeds (messages w')
            = [[], [],
               [\<lparr>emb_title = Some toc_title,
                 emb_description = Some (''[A](msg/5)'' @ [CHR 0x0A]),
                 emb_colour = Some 0x5865F2\<rparr>],
               []])"
proof -
  have h: "distinct (map msg_id (messages demo_channel))"
    by (simp add: demo_channel_def demo_msg_def demo_toc_def)
  have run: "map msg_id (messages (projr (republish demo_titles demo_channel))) = [5, 6, 7, 8]
       \<and> map content (messages (projr (republish demo_titles demo_channel))) = [''A'', ''x'', [], ''*** ***'']
       \<and> map embeds (messages (projr (republish demo_titles demo_channel)))
            = [[], [],
               [\<lparr>emb_title = Some toc_title,
                 emb_description = Some (''[A](msg/5)'' @ [CHR 0x0A]),
                 emb_colour = Some 0x5865F2\<rparr>],
               []]"
    by code_simp
  from republish_replaces_every_record[OF h, of demo_titles] obtain w' where
    "republish demo_titles demo_channel = Inr w'"
    "replaced demo_titles (messages demo_channel) [] (messages w')" by blast
  with run h show ?thesis by auto
qed

text \<open>
  The claim as it was worded asks for the table of contents whenever a message without
  text carries an embed with that title. The command looks at the first embed only: for
  a message whose second embed has the title it sends the placeholder.
\<close>

theorem republish_later_embed_counterexample:
  "content demo_second_toc = []
   \<and> Some toc_title \<in> set (map emb_title (embeds demo_second_toc))
   \<and> map content (messages (projr (republish demo_titles \<lparr>messages = [demo_second_toc], events = []\<rparr>)))
       = [''*** ***'']
   \<and> map embeds (messages (projr (republish demo_titles \<lparr>messages = [demo_second_toc], events = []\<rparr>)))
       = [[]]"
  by code_simp

section \<open>Properties of dump, save and publish\<close>

text \<open>
  Claim C10. When the id parses and the user cache has no user for it, \<^verbatim>\<open>dump_messages\<close>
  ends with AttributeError, raised while the text of the rejection is built, and the
  state is unchanged: no response is delivered and no message is forwarded.
\<close>

theorem dump_messages_unknown_user:
  assumes "py_int E ident = Some n" and "get_user E n = None"
  shows "dump_messages E ident w = (Some AttributeError, w)"
  using assms by (simp add: dump_messages_def)

theorem dump_messages_unknown_user_witness:
  "py_int demo_env ''42'' = Some 42 \<and> get_user demo_env 42 = None
   \<and> dump_messages demo_env ''42'' demo_world = (Some AttributeError, demo_world)"
proof -
  have h1: "py_int demo_env ''42'' = Some 42" by (simp add: demo_env_def)
  have h2: "get_user demo_env 42 = None" by (simp add: demo_env_def)
  from dump_messages_unknown_user[OF h1 h2] h1 h2 show ?thesis by simp
qed

lemma str_nat_0: "str_nat 0 = ''0''"
  by (simp add: str_nat.simps digit_char_def)

lemma save_attachment_fold:
  "foldl (\<lambda>st' a. save_attachment E filename a st') (fs, images) atts
     = (written E filename atts fs, images @ replicate (length atts) (filename @ ''/0.png''))"
proof (induction atts arbitrary: fs images)
  case Nil
  then show ?case by (simp add: written_def)
next
  case (Cons a atts)
  have step: "save_attachment E filename a (fs, images)
      = (written E filename [a] fs, images @ [filename @ ''/0.png''])"
    by (simp add: save_attachment_def written_def Let_def str_nat_0)
  have w: "written E filename atts (written E filename [a] fs) = written E filename (a # atts) fs"
    by (simp add: written_def)
  show ?case
    using Cons.IH[of "written E filename [a] fs" "images @ [filename @ ''/0.png'']"]
    by (simp add: step w replicate_append_same)
qed

lemma save_message_result:
  "save_message E filename msg (fs, msgs)
     = (written E filename (attachments msg) fs, msgs @ [entry_of E filename msg])"
  by (simp add: save_message_def save_attachment_fold entry_of_def Let_def)

lemma written_append:
  "written E filename ys (written E filename xs fs) = written E filename (xs @ ys) fs"
  by (simp add: written_def)

lemma save_message_fold:
  "foldl (\<lambda>st' msg. save_message E filename msg st') (fs, msgs) ms
     = (written E filename (concat (map attachments ms)) fs, msgs @ map (entry_of E filename) ms)"
proof (induction ms arbitrary: fs msgs)
  case Nil
  then show ?case by (simp add: written_def)
next
  case (Cons m ms)
  show ?case
    using Cons.IH[of "written E filename (attachments m) fs" "msgs @ [entry_of E filename m]"]
    by (simp add: save_message_result written_append)
qed

lemma save_messages_result:
  "save_messages E filename_opt (w, fs)
     = (let filename = (case filename_opt of None \<Rightarrow> default_filename E | Some f \<Rightarrow> f);
            fs' = written E filename (concat (map attachments (messages w))) fs
        in (respond ''Done'' (respond ''Saving'' w),
            fs'\<lparr>fs_json := (fs_json fs')
               (FILEPATH E @ ''/'' @ filename @ ''.json''
                  \<mapsto> Header (channel_name E) (channel_id E) # map (entry_of E filename) (messages w))\<rparr>))"
  by (simp add: save_messages_def Let_def history_def respond_def save_message_fold)

lemma read_files_replicate:
  assumes "k \<noteq> 0 \<longrightarrow> fs_files fs (FILEPATH E @ ''/'' @ img) = Some b"
  shows "read_files E fs (replicate k img)
       = Some (replicate k \<lparr>att_filename = basename img, att_bytes = b\<rparr>)"
  using assms by (induction k) auto

lemma publish_loop:
  assumes fl: "(\<exists>m\<in>set ms. attachments m \<noteq> []) \<longrightarrow>
                   fs_files fs (FILEPATH E @ ''/'' @ filename @ ''/0.png'') = Some b"
  shows "\<exists>news. for_each (map (entry_of E filename) ms) (publish_entry E fs) w
            = Inr \<lparr>messages = messages w @ news, events = events w @ map Sent news\<rparr>
         \<and> map content news = map (\<lambda>m. emojify E (deemojify E (content m))) ms
         \<and> map (\<lambda>r. map emb_description (embeds r)) news = map (\<lambda>m. map emb_description (embeds m)) ms
         \<and> map (\<lambda>r. length (attachments r)) news = map (\<lambda>m. length (attachments m)) ms
         \<and> (\<forall>r\<in>set news. author r = bot_user E \<and> (\<forall>a\<in>set (attachments r). att_bytes a = b))"
  using assms
proof (induction ms arbitrary: w)
  case Nil
  show ?case by (intro exI[of _ "[]"]) simp
next
  case (Cons m ms)
  let ?files = "replicate (length (attachments m))
                  \<lparr>att_filename = basename (filename @ ''/0.png''), att_bytes = b\<rparr>"
  let ?r = "\<lparr>msg_id = fresh_id (messages w), author = bot_user E,
             content = emojify E (deemojify E (content m)), attachments = ?files,
             embeds = map (\<lambda>d. \<lparr>emb_title = None, emb_description = d, emb_colour = None\<rparr>)
                        (map emb_description (embeds m)),
             suppress_embeds = False\<rparr>"
  have rf: "read_files E fs (replicate (length (attachments m)) (filename @ ''/0.png'')) = Some ?files"
    using Cons.prems by (intro read_files_replicate) auto
  have step: "publish_entry E fs (entry_of E filename m) w
      = Inr \<lparr>messages = messages w @ [?r], events = events w @ [Sent ?r]\<rparr>"
    by (simp add: publish_entry_def entry_of_def rf send_def Let_def)
  have fl': "(\<exists>m\<in>set ms. attachments m \<noteq> []) \<longrightarrow>
                 fs_files fs (FILEPATH E @ ''/'' @ filename @ ''/0.png'') = Some b"
    using Cons.prems by auto
  from Cons.IH[OF fl', of "\<lparr>messages = messages w @ [?r], events = events w @ [Sent ?r]\<rparr>"]
  obtain news where
    loop: "for_each (map (entry_of E filename) ms) (publish_entry E fs)
             \<lparr>messages = messages w @ [?r], events = events w @ [Sent ?r]\<rparr>
         = Inr \<lparr>messages = (messages w @ [?r]) @ news, events = (events w @ [Sent ?r]) @ map Sent news\<rparr>"
    and c: "map content news = map (\<lambda>m. emojify E (deemojify E (content m))) ms"
    and e: "map (\<lambda>r. map emb_description (embeds r)) news = map (\<lambda>m. map emb_description (embeds m)) ms"
    and l: "map (\<lambda>r. length (attachments r)) news = map (\<lambda>m. length (attachments m)) ms"
    and a: "\<forall>r\<in>set news. author r = bot_user E \<and> (\<forall>a\<in>set (attachments r). att_bytes a = b)"
    by auto
  have "for_each (map (entry_of E filename) (m # ms)) (publish_entry E fs) w
      = Inr \<lparr>messages = messages w @ (?r # news), events = events w @ map Sent (?r # news)\<rparr>"
    using step loop by simp
  with c e l a show ?case
    by (intro exI[of _ "?r # news"]) (simp add: comp_def)
qed

text \<open>
  Claim C8, as amended. Provided \<^verbatim>\<open>emojify\<close> inverts \<^verbatim>\<open>deemojify\<close>, the export writes a
  document with the header followed by exactly one object per message of the channel,
  and publishing that document into an empty channel sends one record per message, in
  the same order, with the same text, the same embed descriptions and the same number
  of attachments. (What the attachments hold is left out of the statement.)
\<close>

theorem export_import_round_trip:
  assumes "\<forall>s. emojify E (deemojify E s) = s"
    and "filename = (case filename_opt of None \<Rightarrow> default_filename E | Some f \<Rightarrow> f)"
  shows "(\<exists>entries. fs_json (snd (save_messages E filename_opt (w, fs))) (FILEPATH E @ ''/'' @ filename @ ''.json'')
              = Some (Header (channel_name E) (channel_id E) # entries)
           \<and> length entries = length (messages w))
     \<and> (\<exists>w'. publish E filename (empty_channel, snd (save_messages E filename_opt (w, fs))) = Inr w'
          \<and> events w' = Responded ''Starting'' # map Sent (messages w')
          \<and> map content (messages w') = map content (messages w)
          \<and> map (\<lambda>r. map emb_description (embeds r)) (messages w')
              = map (\<lambda>m. map emb_description (embeds m)) (messages w)
          \<and> map (\<lambda>r. length (attachments r)) (messages w')
              = map (\<lambda>m. length (attachments m)) (messages w))"
proof -
  let ?atts = "concat (map attachments (messages w))"
  let ?fs1 = "written E filename ?atts fs"
  let ?doc = "Header (channel_name E) (channel_id E) # map (entry_of E filename) (messages w)"
  let ?fs' = "?fs1\<lparr>fs_json := (fs_json ?fs1)(FILEPATH E @ ''/'' @ filename @ ''.json'' \<mapsto> ?doc)\<rparr>"
  have sv: "snd (save_messages E filename_opt (w, fs)) = ?fs'"
    by (simp add: save_messages_result Let_def assms(2))
  have doc: "fs_json ?fs' (FILEPATH E @ ''/'' @ filename @ ''.json'') = Some ?doc" by simp
  have fl: "(\<exists>m\<in>set (messages w). attachments m \<noteq> []) \<longrightarrow>
       fs_files ?fs' (FILEPATH E @ ''/'' @ filename @ ''/0.png'') = Some (att_bytes (last ?atts))"
    by (auto simp: written_def)
  from publish_loop[OF fl, of "respond ''Starting'' empty_channel"]
  obtain news where
    loop: "for_each (map (entry_of E filename) (messages w)) (publish_entry E ?fs') (respond ''Starting'' empty_channel)
         = Inr \<lparr>messages = messages (respond ''Starting'' empty_channel) @ news,
                events = events (respond ''Starting'' empty_channel) @ map Sent news\<rparr>"
    and c: "map content news = map (\<lambda>m. emojify E (deemojify E (content m))) (messages w)"
    and e: "map (\<lambda>r. map emb_description (embeds r)) news = map (\<lambda>m. map emb_description (embeds m)) (messages w)"
    and l: "map (\<lambda>r. length (attachments r)) news = map (\<lambda>m. length (attachments m)) (messages w)"
    by blast
  have pub: "publish E filename (empty_channel, ?fs')
      = Inr \<lparr>messages = news, events = Responded ''Starting'' # map Sent news\<rparr>"
    using loop by (simp add: publish_def respond_def empty_channel_def)
  have c': "map content news = map content (messages w)"
    using c assms(1) by simp
  show ?thesis
    unfolding sv using doc pub c' e l by simp
qed

theorem export_import_round_trip_witness:
  "(\<forall>s. emojify demo_env (deemojify demo_env s) = s)
   \<and> ''out'' = (case Some ''out'' of None \<Rightarrow> default_filename demo_env | Some f \<Rightarrow> f)
   \<and> (\<exists>w'. publish demo_env ''out'' (empty_channel, snd (save_messages demo_env (Some ''out'') (demo_gallery, demo_fs))) = Inr w'
        \<and> map content (messages w') = [''A'', ''x''])"
proof -
  have h1: "\<forall>s. emojify demo_env (deemojify demo_env s) = s" by (simp add: demo_env_def)
  have h2: "''out'' = (case Some ''out'' of None \<Rightarrow> default_filename demo_env | Some f \<Rightarrow> f)" by simp
  have c: "map content (messages demo_gallery) = [''A'', ''x'']"
    by (simp add: demo_gallery_def demo_msg_def)
  from export_import_round_trip[OF h1 h2, of demo_gallery demo_fs] show ?thesis
    unfolding c using h1 by auto
qed

text \<open>
  Claim C8 as stated fails on the attachments: every attachment of the export is written
  to the one file \<^verbatim>\<open>0.png\<close>, so the records published from it all carry the bytes of
  the attachment saved last.
\<close>

theorem export_import_attachments_counterexample:
  "map (\<lambda>m. map att_bytes (attachments m)) (messages demo_gallery) = [[''AAA'', ''BBB''], [''CCC'']]
   \<and> map (\<lambda>m. map att_bytes (attachments m))
        (messages (projr (publish demo_env ''out''
            (empty_channel, snd (save_messages demo_env (Some ''out'') (demo_gallery, demo_fs))))))
     = [[''CCC'', ''CCC''], [''CCC'']]"
  by code_simp

text \<open>
  Claim C7, on the code: for a message with two attachments the export records the path
  \<^verbatim>\<open>0.png\<close> twice and no file \<^verbatim>\<open>1.png\<close> exists, since \<^verbatim>\<open>img_id\<close> is reset inside the
  loop over the attachments.
\<close>

theorem save_messages_attachment_files:
  "fs_json (snd (save_messages demo_env (Some ''out'') (demo_gallery, demo_fs))) ''data/out.json''
     = Some [Header ''faq'' 100, Entry ''A'' [''out/0.png'', ''out/0.png''] [], Entry ''x'' [''out/0.png''] []]
   \<and> fs_files (snd (save_messages demo_env (Some ''out'') (demo_gallery, demo_fs))) ''data/out/0.png'' = Some ''CCC''
   \<and> fs_files (snd (save_messages demo_env (Some ''out'') (demo_gallery, demo_fs))) ''data/out/1.png'' = None"
  by code_simp

section \<open>Properties of the link enrichment\<close>

subsection \<open>Texts and their characters\<close>


subsection \<open>What a match is\<close>






















subsection \<open>The spans and the rewrite\<close>









text \<open>
  Claim C6. When no bare link id is found in the text, \<^verbatim>\<open>fix_item_links\<close> returns with
  the message unchanged and no request made. When ids are found and the token exchange
  fails, it ends with that error after the token request alone: no name is looked up and
  the message is unchanged.
\<close>

theorem fix_item_links_failure_propagation:
  "(item_ids (content message) = [] \<longrightarrow> fix_item_links B message = (None, message, []))
   \<and> (item_ids (content message) \<noteq> [] \<and> get_token B = Inl e \<longrightarrow>
        fix_item_links B message = (Some e, message, [TokenRequest]))"
  by (simp add: fix_item_links_def Let_def)


theorem fix_item_links_failure_propagation_witness:
  "item_ids (content (demo_msg 1 7 ''hello'')) = []
   \<and> fix_item_links demo_down (demo_msg 1 7 ''hello'') = (None, demo_msg 1 7 ''hello'', [])
   \<and> item_ids (content (demo_msg 2 7 ''https://wowhead.com/item=1'')) \<noteq> []
   \<and> get_token demo_down = Inl HTTPError
   \<and> fix_item_links demo_down (demo_msg 2 7 ''https://wowhead.com/item=1'')
       = (Some HTTPError, demo_msg 2 7 ''https://wowhead.com/item=1'', [TokenRequest])
   \<and> item_ids (content (demo_msg 3 7 demo_arabic)) = [[CHR 0xD9, CHR 0xA3]]
   \<and> fix_item_links demo_down (demo_msg 3 7 demo_arabic)
       = (Some HTTPError, demo_msg 3 7 demo_arabic, [TokenRequest])
   \<and> item_ids (content (demo_msg 4 7 demo_split)) = []
   \<and> fix_item_links demo_down (demo_msg 4 7 demo_split) = (None, demo_msg 4 7 demo_split, [])"
proof -
  have h1: "item_ids (content (demo_msg 1 7 ''hello'')) = []" by code_simp
  have h2: "item_ids (content (demo_msg 2 7 ''https://wowhead.com/item=1'')) \<noteq> []" by code_simp
  have h3: "get_token demo_down = Inl HTTPError" by (simp add: demo_down_def)
  have h4: "item_ids (content (demo_msg 3 7 demo_arabic)) = [[CHR 0xD9, CHR 0xA3]]" by code_simp
  have h5: "item_ids (content (demo_msg 4 7 demo_split)) = []" by code_simp
  from fix_item_links_failure_propagation[of "demo_msg 1 7 ''hello''" demo_down HTTPError]
       fix_item_links_failure_propagation[of "demo_msg 2 7 ''https://wowhead.com/item=1''" demo_down HTTPError]
       fix_item_links_failure_propagation[of "demo_msg 3 7 demo_arabic" demo_down HTTPError]
       fix_item_links_failure_propagation[of "demo_msg 4 7 demo_split" demo_down HTTPError]
       h1 h2 h3 h4 h5
  show ?thesis by simp
qed

end
